theory Spec2Isabelle
  imports Complex_Main "HOL-Library.Multiset"
begin

section \<open>Python values, exceptions and the library operations the optimizer calls\<close>

text \<open>
  The optimizer of \<^verbatim>\<open>analysis/optimizer/optimizer.py\<close> works on dynamically typed
  values read from knob descriptors. A value is \<^verbatim>\<open>None\<close>, an \<^verbatim>\<open>int\<close> (unbounded),
  a \<^verbatim>\<open>float\<close> or a \<^verbatim>\<open>str\<close>. The float type is the type parameter \<open>'f\<close>: no
  property of IEEE arithmetic is assumed. Every operation on floats and the reading of
  an int from a string are fields of the record \<open>pylib\<close> below, and every general
  theorem about the optimizer holds for every such record.
\<close>

datatype 'f pyval = VNone | VInt int | VFloat 'f | VStr string

text \<open>
  Exceptions are values. \<open>ValueError\<close> and \<open>RuntimeError\<close> carry their message; the
  message of an error raised by a builtin is abbreviated. \<open>UnboundLocalError\<close> carries
  the name of the local variable that was read before assignment.
\<close>

datatype exn =
    ValueError string
  | RuntimeError string
  | TypeError
  | OverflowError
  | IndexError
  | ZeroDivisionError
  | UnboundLocalError string
  | OtherError string

record 'f pylib =
  float_of_int :: "int \<Rightarrow> exn + 'f"
  float_of_str :: "string \<Rightarrow> 'f option"
  int_of_str :: "string \<Rightarrow> int option"
  int_of_float :: "'f \<Rightarrow> exn + int"
  num_lt :: "'f pyval \<Rightarrow> 'f pyval \<Rightarrow> bool"
  num_eq :: "'f pyval \<Rightarrow> 'f pyval \<Rightarrow> bool"
  float_add :: "'f \<Rightarrow> 'f \<Rightarrow> 'f"
  float_zero :: "'f"
  float_one :: "'f"
  float_tenth :: "'f"
  arange_float :: "'f pyval \<Rightarrow> 'f pyval \<Rightarrow> 'f pyval \<Rightarrow> exn + 'f pyval list"
  list_set :: "'f pyval list \<Rightarrow> 'f pyval list"

text \<open>
  \<open>float_of_int\<close> is \<^verbatim>\<open>float(i)\<close> (which overflows for huge integers),
  \<open>float_of_str\<close> and \<open>int_of_str\<close> are \<^verbatim>\<open>float(s)\<close> and \<^verbatim>\<open>int(s)\<close> on a
  string (\<open>None\<close> where Python raises \<^verbatim>\<open>ValueError\<close>), \<open>int_of_float\<close> is
  \<^verbatim>\<open>int(f)\<close>, \<open>num_lt\<close> and \<open>num_eq\<close> are \<^verbatim>\<open><\<close> and \<^verbatim>\<open>==\<close> on two numbers
  of which at least one is a float, \<open>float_tenth\<close> is the literal \<^verbatim>\<open>0.1\<close>,
  \<open>arange_float\<close> is \<^verbatim>\<open>list(np.arange(a, b, step))\<close> when an argument is not an
  int, and \<open>list_set\<close> is \<^verbatim>\<open>list(set(xs))\<close>, whose order Python leaves to the hash
  table.
\<close>

subsection \<open>Coercions, comparison, indexing, splitting\<close>

definition py_int :: "'f pylib \<Rightarrow> 'f pyval \<Rightarrow> exn + int" where
  "py_int L v =
     (case v of
        VInt i \<Rightarrow> Inr i
      | VFloat f \<Rightarrow> int_of_float L f
      | VStr s \<Rightarrow> (case int_of_str L s of
                    None \<Rightarrow> Inl (ValueError ''invalid literal for int() with base 10'')
                  | Some i \<Rightarrow> Inr i)
      | VNone \<Rightarrow> Inl TypeError)"

definition py_float :: "'f pylib \<Rightarrow> 'f pyval \<Rightarrow> exn + 'f" where
  "py_float L v =
     (case v of
        VInt i \<Rightarrow> float_of_int L i
      | VFloat f \<Rightarrow> Inr f
      | VStr s \<Rightarrow> (case float_of_str L s of
                    None \<Rightarrow> Inl (ValueError ''could not convert string to float'')
                  | Some f \<Rightarrow> Inr f)
      | VNone \<Rightarrow> Inl TypeError)"

fun str_lt :: "string \<Rightarrow> string \<Rightarrow> bool" where
  "str_lt [] [] = False"
| "str_lt [] (d # ds) = True"
| "str_lt (c # cs) [] = False"
| "str_lt (c # cs) (d # ds) =
     ((of_char c :: nat) < of_char d \<or> (c = d \<and> str_lt cs ds))"

definition is_num :: "'f pyval \<Rightarrow> bool" where
  "is_num v = (case v of VInt _ \<Rightarrow> True | VFloat _ \<Rightarrow> True | _ \<Rightarrow> False)"

text \<open>\<^verbatim>\<open>a < b\<close>: numbers with numbers, strings with strings, anything else is a TypeError.\<close>

definition py_lt :: "'f pylib \<Rightarrow> 'f pyval \<Rightarrow> 'f pyval \<Rightarrow> exn + bool" where
  "py_lt L a b =
     (case (a, b) of
        (VInt i, VInt j) \<Rightarrow> Inr (i < j)
      | (VStr s, VStr t) \<Rightarrow> Inr (str_lt s t)
      | _ \<Rightarrow> if is_num a \<and> is_num b then Inr (num_lt L a b) else Inl TypeError)"

definition py_gt :: "'f pylib \<Rightarrow> 'f pyval \<Rightarrow> 'f pyval \<Rightarrow> exn + bool" where
  "py_gt L a b = py_lt L b a"

text \<open>\<^verbatim>\<open>a <= 0\<close> as the source uses it on the step.\<close>

definition py_le :: "'f pylib \<Rightarrow> 'f pyval \<Rightarrow> 'f pyval \<Rightarrow> exn + bool" where
  "py_le L a b =
     (case py_lt L a b of
        Inl e \<Rightarrow> Inl e
      | Inr lt \<Rightarrow> Inr (lt \<or> (case (a, b) of
                               (VInt i, VInt j) \<Rightarrow> i = j
                             | (VStr s, VStr t) \<Rightarrow> s = t
                             | _ \<Rightarrow> num_eq L a b)))"

text \<open>\<^verbatim>\<open>a == b\<close> never raises.\<close>

definition py_eq :: "'f pylib \<Rightarrow> 'f pyval \<Rightarrow> 'f pyval \<Rightarrow> bool" where
  "py_eq L a b =
     (case (a, b) of
        (VInt i, VInt j) \<Rightarrow> i = j
      | (VStr s, VStr t) \<Rightarrow> s = t
      | (VNone, VNone) \<Rightarrow> True
      | _ \<Rightarrow> is_num a \<and> is_num b \<and> num_eq L a b)"

definition py_in :: "'f pylib \<Rightarrow> 'f pyval \<Rightarrow> 'f pyval list \<Rightarrow> bool" where
  "py_in L v xs = list_ex (py_eq L v) xs"

text \<open>\<^verbatim>\<open>b + 1\<close>.\<close>

definition py_add1 :: "'f pylib \<Rightarrow> 'f pyval \<Rightarrow> exn + 'f pyval" where
  "py_add1 L b =
     (case b of
        VInt j \<Rightarrow> Inr (VInt (j + 1))
      | VFloat f \<Rightarrow> Inr (VFloat (float_add L f (float_one L)))
      | _ \<Rightarrow> Inl TypeError)"

text \<open>
  \<^verbatim>\<open>list(np.arange(a, b, step))\<close>. On three ints the result is the ints
  \<open>a, a + step, \<dots>\<close> below \<open>b\<close> (above \<open>b\<close> for a negative step), of which there are
  \<open>\<lceil>(b - a) / step\<rceil>\<close>; numpy's 64-bit bound on them is not modelled.
\<close>

definition int_arange :: "int \<Rightarrow> int \<Rightarrow> int \<Rightarrow> int list" where
  "int_arange a b s = map (\<lambda>i. a + int i * s) [0 ..< nat (- ((a - b) div s))]"

definition np_arange :: "'f pylib \<Rightarrow> 'f pyval \<Rightarrow> 'f pyval \<Rightarrow> 'f pyval \<Rightarrow> exn + 'f pyval list" where
  "np_arange L a b s =
     (case (a, b, s) of
        (VInt i, VInt j, VInt k) \<Rightarrow>
          if k = 0 then Inl ZeroDivisionError else Inr (map VInt (int_arange i j k))
      | _ \<Rightarrow> arange_float L a b s)"

text \<open>\<^verbatim>\<open>xs[i]\<close> with Python's negative indices.\<close>

definition py_index :: "'a list \<Rightarrow> int \<Rightarrow> exn + 'a" where
  "py_index xs i =
     (if 0 \<le> i \<and> i < int (length xs) then Inr (xs ! nat i)
      else if i < 0 \<and> - int (length xs) \<le> i then Inr (xs ! nat (int (length xs) + i))
      else Inl IndexError)"

text \<open>\<^verbatim>\<open>s.split(sep)\<close> for a one-character separator.\<close>

fun py_split :: "char \<Rightarrow> string \<Rightarrow> string list" where
  "py_split sep [] = [[]]"
| "py_split sep (c # cs) =
     (if c = sep then [] # py_split sep cs
      else (case py_split sep cs of
              w # ws \<Rightarrow> (c # w) # ws
            | [] \<Rightarrow> [[c]]))"

section \<open>Knob descriptors and the worker\<close>

text \<open>
  A knob descriptor is a dict with the keys \<^verbatim>\<open>name\<close>, \<^verbatim>\<open>type\<close>, \<^verbatim>\<open>dtype\<close>,
  \<^verbatim>\<open>range\<close>, \<^verbatim>\<open>items\<close>, \<^verbatim>\<open>options\<close>, \<^verbatim>\<open>ref\<close> and, optionally, \<^verbatim>\<open>step\<close>.
  \<open>k_range\<close> and \<open>k_items\<close> are \<open>None\<close> where the dict holds Python's \<^verbatim>\<open>None\<close>;
  \<open>k_step\<close> is \<open>None\<close> where the key is absent. The lists under \<^verbatim>\<open>range\<close> and
  \<^verbatim>\<open>items\<close> are owned by their knob: the source updates them in place, and the model
  returns the updated knob.
\<close>

record 'f knob =
  k_name :: string
  k_type :: string
  k_dtype :: string
  k_range :: "'f pyval list option"
  k_items :: "'f pyval list option"
  k_options :: "string list"
  k_step :: "'f pyval option"
  k_ref :: "'f pyval"

text \<open>The attributes of \<^verbatim>\<open>Optimizer\<close> that \<^verbatim>\<open>__init__\<close> sets.\<close>

record 'f optimizer =
  knobs :: "'f knob list"
  engine :: string
  max_eval :: int
  split_count :: int
  ref :: "'f pyval list"
  x0 :: "string list list option"
  y0 :: "'f pyval list option"
  n_random_starts :: int

definition init_optimizer ::
  "'f knob list \<Rightarrow> string \<Rightarrow> int \<Rightarrow> string list list option \<Rightarrow> 'f pyval list option
     \<Rightarrow> int option \<Rightarrow> 'f optimizer" where
  "init_optimizer params eng n xs ys nrs =
     \<lparr>knobs = params, engine = eng, max_eval = n, split_count = 5, ref = [],
      x0 = xs, y0 = ys,
      n_random_starts = (case nrs of None \<Rightarrow> 20 | Some k \<Rightarrow> k)\<rparr>"

text \<open>
  A search dimension is the list of candidates of a discrete knob or the pair of bounds
  of a continuous one.
\<close>

datatype 'f dim = Candidates "'f pyval list" | Interval "'f pyval" "'f pyval"

section \<open>\<^verbatim>\<open>handle_discrete_data\<close>\<close>

text \<open>\<^verbatim>\<open>except ValueError: raise ValueError(msg)\<close>: other exceptions pass through.\<close>

definition reraise_value_error :: "string \<Rightarrow> exn \<Rightarrow> exn" where
  "reraise_value_error msg e = (case e of ValueError _ \<Rightarrow> ValueError msg | _ \<Rightarrow> e)"

text \<open>\<^verbatim>\<open>step = 1 if p_nob['step'] < 1 else p_nob['step']\<close>, and 1 without the key.\<close>

definition int_step :: "'f pylib \<Rightarrow> 'f knob \<Rightarrow> exn + 'f pyval" where
  "int_step L p =
     (case k_step p of
        None \<Rightarrow> Inr (VInt 1)
      | Some s \<Rightarrow> (case py_lt L s (VInt 1) of
                    Inl e \<Rightarrow> Inl e
                  | Inr b \<Rightarrow> Inr (if b then VInt 1 else s)))"

text \<open>\<^verbatim>\<open>step = 0.1 if p_nob['step'] <= 0 else p_nob['step']\<close>, and 0.1 without the key.\<close>

definition float_step :: "'f pylib \<Rightarrow> 'f knob \<Rightarrow> exn + 'f pyval" where
  "float_step L p =
     (case k_step p of
        None \<Rightarrow> Inr (VFloat (float_tenth L))
      | Some s \<Rightarrow> (case py_le L s (VInt 0) of
                    Inl e \<Rightarrow> Inl e
                  | Inr b \<Rightarrow> Inr (if b then VFloat (float_tenth L) else s)))"

text \<open>
  The loop \<^verbatim>\<open>for i in range(0, length, 2): items.extend(list(np.arange(...)))\<close> over
  the pairs of \<^verbatim>\<open>r_range\<close>; an odd last element is ignored. \<open>inc\<close> says whether the
  upper bound is \<^verbatim>\<open>r_range[i + 1] + 1\<close> (dtype int) or \<^verbatim>\<open>r_range[i + 1]\<close> (dtype
  float). The list built so far is returned with the exception, since \<^verbatim>\<open>extend\<close>
  works in place.
\<close>

fun extend_ranges ::
  "'f pylib \<Rightarrow> bool \<Rightarrow> 'f pyval \<Rightarrow> 'f pyval list \<Rightarrow> 'f pyval list
     \<Rightarrow> 'f pyval list \<times> exn option" where
  "extend_ranges L inc st (lo # hi # rest) items =
     (case (if inc then py_add1 L hi else Inr hi) of
        Inl e \<Rightarrow> (items, Some e)
      | Inr hi' \<Rightarrow>
          (case np_arange L lo hi' st of
             Inl e \<Rightarrow> (items, Some e)
           | Inr vs \<Rightarrow> extend_ranges L inc st rest (items @ vs)))"
| "extend_ranges L inc st r items = (items, None)"

text \<open>
  The two numeric branches. \<^verbatim>\<open>items\<close> aliases the knob's own list unless that is
  \<^verbatim>\<open>None\<close>, so the extension is written back into the knob; \<^verbatim>\<open>list(set(items))\<close>
  then makes a new list.
\<close>

definition handle_discrete_int ::
  "'f pylib \<Rightarrow> 'f knob \<Rightarrow> 'f pyval list \<Rightarrow> 'f knob \<times> 'f pyval list \<times> (exn + 'f pyval list)" where
  "handle_discrete_int L p refs =
     (let items = (case k_items p of None \<Rightarrow> [] | Some xs \<Rightarrow> xs) in
      case int_step L p of
        Inl e \<Rightarrow> (p, refs, Inl e)
      | Inr st \<Rightarrow>
          (let (items1, err) = (case k_range p of
                                  None \<Rightarrow> (items, None)
                                | Some r \<Rightarrow> extend_ranges L True st r items);
               p1 = (case k_items p of None \<Rightarrow> p | Some _ \<Rightarrow> p\<lparr>k_items := Some items1\<rparr>)
           in case err of
                Some e \<Rightarrow> (p1, refs, Inl e)
              | None \<Rightarrow>
                  (let items2 = list_set L items1 in
                   case py_int L (k_ref p) of
                     Inl e \<Rightarrow>
                       (p1, refs, Inl (reraise_value_error
                          (''the ref value of '' @ k_name p @ '' is not an integer value'') e))
                   | Inr rv \<Rightarrow>
                       (p1, refs @ [VInt rv],
                        Inr (if py_in L (VInt rv) items2 then items2
                             else items2 @ [VInt rv])))))"

definition handle_discrete_float ::
  "'f pylib \<Rightarrow> 'f knob \<Rightarrow> 'f pyval list \<Rightarrow> 'f knob \<times> 'f pyval list \<times> (exn + 'f pyval list)" where
  "handle_discrete_float L p refs =
     (let items = (case k_items p of None \<Rightarrow> [] | Some xs \<Rightarrow> xs) in
      case float_step L p of
        Inl e \<Rightarrow> (p, refs, Inl e)
      | Inr st \<Rightarrow>
          (let (items1, err) = (case k_range p of
                                  None \<Rightarrow> (items, None)
                                | Some r \<Rightarrow> extend_ranges L False st r items);
               p1 = (case k_items p of None \<Rightarrow> p | Some _ \<Rightarrow> p\<lparr>k_items := Some items1\<rparr>)
           in case err of
                Some e \<Rightarrow> (p1, refs, Inl e)
              | None \<Rightarrow>
                  (let items2 = list_set L items1 in
                   case py_float L (k_ref p) of
                     Inl e \<Rightarrow>
                       (p1, refs, Inl (reraise_value_error
                          (''the ref value of '' @ k_name p @ '' is not a float value'') e))
                   | Inr rv \<Rightarrow>
                       (p1, refs @ [VFloat rv],
                        Inr (if py_in L (VFloat rv) items2 then items2
                             else items2 @ [VFloat rv])))))"

text \<open>
  The string branch: \<^verbatim>\<open>for key, value in enumerate(items)\<close> appends every key to
  \<^verbatim>\<open>keys\<close> and, where \<^verbatim>\<open>p_nob['ref'] == value\<close>, the key to \<^verbatim>\<open>self.ref\<close>. The
  loop has no \<^verbatim>\<open>break\<close>.
\<close>

fun enumerate_options ::
  "'f pyval \<Rightarrow> nat \<Rightarrow> string list \<Rightarrow> 'f pyval list \<Rightarrow> 'f pyval list
     \<Rightarrow> 'f pyval list \<times> 'f pyval list" where
  "enumerate_options r key [] keys refs = (keys, refs)"
| "enumerate_options r key (v # rest) keys refs =
     enumerate_options r (Suc key) rest (keys @ [VInt (int key)])
       (if r = VStr v then refs @ [VInt (int key)] else refs)"

definition handle_discrete_string ::
  "'f knob \<Rightarrow> 'f pyval list \<Rightarrow> 'f knob \<times> 'f pyval list \<times> (exn + 'f pyval list)" where
  "handle_discrete_string p refs =
     (let (keys, refs') = enumerate_options (k_ref p) 0 (k_options p) [] refs in
      if length refs' = length refs
      then (p, refs', Inl (ValueError (''the ref value of '' @ k_name p @ '' is out of range'')))
      else (p, refs', Inr keys))"

text \<open>
  \<open>handle_discrete_data L p refs\<close> is the knob after the call, \<^verbatim>\<open>self.ref\<close> after the
  call, and the exception raised or the list returned.
\<close>

definition handle_discrete_data ::
  "'f pylib \<Rightarrow> 'f knob \<Rightarrow> 'f pyval list \<Rightarrow> 'f knob \<times> 'f pyval list \<times> (exn + 'f pyval list)" where
  "handle_discrete_data L p refs =
     (if k_dtype p = ''int'' then handle_discrete_int L p refs
      else if k_dtype p = ''float'' then handle_discrete_float L p refs
      else if k_dtype p = ''string'' then handle_discrete_string p refs
      else (p, refs, Inl (ValueError (''the dtype of '' @ k_name p @ '' is not supported''))))"

section \<open>\<^verbatim>\<open>build_space\<close>\<close>

text \<open>
  The \<^verbatim>\<open>try\<close> block of a continuous knob of dtype int: \<^verbatim>\<open>ref_value\<close>,
  \<^verbatim>\<open>r_range[0]\<close> and \<^verbatim>\<open>r_range[1]\<close> are assigned one after the other, so a failure
  keeps the assignments made before it. The result is the two bounds, the local
  \<^verbatim>\<open>ref_value\<close> (\<open>None\<close> while it is unbound) and the exception, if any.
\<close>

definition coerce_int ::
  "'f pylib \<Rightarrow> 'f knob \<Rightarrow> 'f pyval \<Rightarrow> 'f pyval \<Rightarrow> 'f pyval option
     \<Rightarrow> 'f pyval \<times> 'f pyval \<times> 'f pyval option \<times> exn option" where
  "coerce_int L p lo hi rv =
     (let msg = ''the ref value of '' @ k_name p @ '' is not an integer value'' in
      case py_int L (k_ref p) of
        Inl e \<Rightarrow> (lo, hi, rv, Some (reraise_value_error msg e))
      | Inr i \<Rightarrow>
          (case py_int L lo of
             Inl e \<Rightarrow> (lo, hi, Some (VInt i), Some (reraise_value_error msg e))
           | Inr a \<Rightarrow>
               (case py_int L hi of
                  Inl e \<Rightarrow> (VInt a, hi, Some (VInt i), Some (reraise_value_error msg e))
                | Inr b \<Rightarrow> (VInt a, VInt b, Some (VInt i), None))))"

definition coerce_float ::
  "'f pylib \<Rightarrow> 'f knob \<Rightarrow> 'f pyval \<Rightarrow> 'f pyval \<Rightarrow> 'f pyval option
     \<Rightarrow> 'f pyval \<times> 'f pyval \<times> 'f pyval option \<times> exn option" where
  "coerce_float L p lo hi rv =
     (let msg = ''the ref value of '' @ k_name p @ '' is not an integer value'' in
      case py_float L (k_ref p) of
        Inl e \<Rightarrow> (lo, hi, rv, Some (reraise_value_error msg e))
      | Inr i \<Rightarrow>
          (case py_float L lo of
             Inl e \<Rightarrow> (lo, hi, Some (VFloat i), Some (reraise_value_error msg e))
           | Inr a \<Rightarrow>
               (case py_float L hi of
                  Inl e \<Rightarrow> (VFloat a, hi, Some (VFloat i), Some (reraise_value_error msg e))
                | Inr b \<Rightarrow> (VFloat a, VFloat b, Some (VFloat i), None))))"

text \<open>
  \<^verbatim>\<open>if p_nob['dtype'] == 'int': ... elif p_nob['dtype'] == 'float': ...\<close> has no
  \<^verbatim>\<open>else\<close>: any other dtype leaves the bounds and \<^verbatim>\<open>ref_value\<close> as they are.
\<close>

definition coerce_bounds ::
  "'f pylib \<Rightarrow> 'f knob \<Rightarrow> 'f pyval \<Rightarrow> 'f pyval \<Rightarrow> 'f pyval option
     \<Rightarrow> 'f pyval \<times> 'f pyval \<times> 'f pyval option \<times> exn option" where
  "coerce_bounds L p lo hi rv =
     (if k_dtype p = ''int'' then coerce_int L p lo hi rv
      else if k_dtype p = ''float'' then coerce_float L p lo hi rv
      else (lo, hi, rv, None))"

text \<open>\<^verbatim>\<open>ref_value < r_range[0] or ref_value > r_range[1]\<close>, with the short circuit.\<close>

definition out_of_range :: "'f pylib \<Rightarrow> 'f pyval \<Rightarrow> 'f pyval \<Rightarrow> 'f pyval \<Rightarrow> exn + bool" where
  "out_of_range L v lo hi =
     (case py_lt L v lo of
        Inl e \<Rightarrow> Inl e
      | Inr below \<Rightarrow> if below then Inr True else py_gt L v hi)"

definition build_continuous ::
  "'f pylib \<Rightarrow> 'f knob \<Rightarrow> 'f pyval list \<Rightarrow> 'f pyval option
     \<Rightarrow> 'f knob \<times> 'f pyval list \<times> 'f pyval option \<times> (exn + 'f dim)" where
  "build_continuous L p refs rv =
     (let scope = ValueError (''the item of the scope value of '' @ k_name p @ '' must be 2'') in
      case k_range p of
        None \<Rightarrow> (p, refs, rv, Inl scope)
      | Some r \<Rightarrow>
          if length r \<noteq> 2 then (p, refs, rv, Inl scope)
          else
            (case coerce_bounds L p (r ! 0) (r ! 1) rv of
               (lo, hi, rv', err) \<Rightarrow>
                 (let p' = p\<lparr>k_range := Some [lo, hi]\<rparr> in
                  case err of
                    Some e \<Rightarrow> (p', refs, rv', Inl e)
                  | None \<Rightarrow>
                      (case rv' of
                         None \<Rightarrow> (p', refs, rv', Inl (UnboundLocalError ''ref_value''))
                       | Some v \<Rightarrow>
                           (case out_of_range L v lo hi of
                              Inl e \<Rightarrow> (p', refs, rv', Inl e)
                            | Inr out \<Rightarrow>
                                if out
                                then (p', refs, rv', Inl (ValueError
                                       (''the ref value of '' @ k_name p @ '' is out of range'')))
                                else (p', refs @ [v], rv', Inr (Interval lo hi)))))))"

text \<open>One iteration of the loop of \<^verbatim>\<open>build_space\<close>.\<close>

definition build_knob ::
  "'f pylib \<Rightarrow> 'f knob \<Rightarrow> 'f pyval list \<Rightarrow> 'f pyval option
     \<Rightarrow> 'f knob \<times> 'f pyval list \<times> 'f pyval option \<times> (exn + 'f dim)" where
  "build_knob L p refs rv =
     (if k_type p = ''discrete'' then
        (case handle_discrete_data L p refs of
           (p', refs', Inl e) \<Rightarrow> (p', refs', rv, Inl e)
         | (p', refs', Inr items) \<Rightarrow> (p', refs', rv, Inr (Candidates items)))
      else if k_type p = ''continuous'' then build_continuous L p refs rv
      else (p, refs, rv, Inl (ValueError (''the type of '' @ k_name p @ '' is not supported''))))"

text \<open>
  The loop over \<^verbatim>\<open>self.knobs\<close>. The state is the knobs (updated in place),
  \<^verbatim>\<open>self.ref\<close>, the local \<^verbatim>\<open>ref_value\<close>, which outlives an iteration, and
  \<^verbatim>\<open>objective_params_list\<close>.
\<close>

fun build_space_loop ::
  "'f pylib \<Rightarrow> 'f knob list \<Rightarrow> 'f pyval list \<Rightarrow> 'f pyval option \<Rightarrow> 'f dim list
     \<Rightarrow> 'f knob list \<times> 'f pyval list \<times> (exn + 'f dim list)" where
  "build_space_loop L [] refs rv acc = ([], refs, Inr acc)"
| "build_space_loop L (p # ps) refs rv acc =
     (case build_knob L p refs rv of
        (p', refs', rv', Inl e) \<Rightarrow> (p' # ps, refs', Inl e)
      | (p', refs', rv', Inr d) \<Rightarrow>
          (case build_space_loop L ps refs' rv' (acc @ [d]) of
             (ps', refs'', r) \<Rightarrow> (p' # ps', refs'', r)))"

definition build_space :: "'f pylib \<Rightarrow> 'f optimizer \<Rightarrow> (exn + 'f dim list) \<times> 'f optimizer" where
  "build_space L w =
     (case build_space_loop L (knobs w) (ref w) None [] of
        (ks, refs, r) \<Rightarrow> (r, w\<lparr>knobs := ks, ref := refs\<rparr>))"

section \<open>Warm start: \<^verbatim>\<open>_get_intvalue_from_knobs\<close> and \<^verbatim>\<open>transfer\<close>\<close>

text \<open>
  The inner loop of \<^verbatim>\<open>transfer\<close> fills the dict \<^verbatim>\<open>kv\<close> from the tokens of one
  entry; a later token with the same name overwrites an earlier one. The message of the
  format error prints the token in place of the list of its parts.
\<close>

fun kv_of_tokens :: "string list \<Rightarrow> (string \<rightharpoonup> string) \<Rightarrow> exn + (string \<rightharpoonup> string)" where
  "kv_of_tokens [] kv = Inr kv"
| "kv_of_tokens (val # rest) kv =
     (let params = py_split CHR ''='' val in
      if length params \<noteq> 2
      then Inl (ValueError (''the param format of '' @ val @ '' is not correct''))
      else kv_of_tokens rest (kv(params ! 0 \<mapsto> params ! 1)))"

text \<open>
  \<^verbatim>\<open>for key, value in enumerate(options): if value != kv[name]: continue;
  x_each.append(key)\<close>.
\<close>

fun append_matches :: "string \<Rightarrow> nat \<Rightarrow> string list \<Rightarrow> 'f pyval list \<Rightarrow> 'f pyval list" where
  "append_matches v key [] x_each = x_each"
| "append_matches v key (value # rest) x_each =
     append_matches v (Suc key) rest
       (if value \<noteq> v then x_each else x_each @ [VInt (int key)])"

fun get_intvalue_loop ::
  "'f pylib \<Rightarrow> 'f knob list \<Rightarrow> (string \<rightharpoonup> string) \<Rightarrow> 'f pyval list \<Rightarrow> exn + 'f pyval list" where
  "get_intvalue_loop L [] kv x_each = Inr x_each"
| "get_intvalue_loop L (p # ps) kv x_each =
     (case kv (k_name p) of
        None \<Rightarrow> Inl (ValueError (''the param '' @ k_name p @ '' is not in the x0 ref''))
      | Some v \<Rightarrow>
          if k_dtype p \<noteq> ''string'' then
            (case py_int L (VStr v) of
               Inl e \<Rightarrow> Inl e
             | Inr i \<Rightarrow> get_intvalue_loop L ps kv (x_each @ [VInt i]))
          else get_intvalue_loop L ps kv (append_matches v 0 (k_options p) x_each))"

definition get_intvalue_from_knobs ::
  "'f pylib \<Rightarrow> 'f knob list \<Rightarrow> (string \<rightharpoonup> string) \<Rightarrow> exn + 'f pyval list" where
  "get_intvalue_from_knobs L ks kv = get_intvalue_loop L ks kv []"

fun transfer_loop ::
  "'f pylib \<Rightarrow> 'f knob list \<Rightarrow> string list list \<Rightarrow> 'f pyval list list
     \<Rightarrow> exn + 'f pyval list list" where
  "transfer_loop L ks [] list_ref_x = Inr list_ref_x"
| "transfer_loop L ks (xValue # rest) list_ref_x =
     (if length xValue \<noteq> length ks
      then Inl (ValueError ''x0 is not the same length with knobs'')
      else
        (case kv_of_tokens xValue Map.empty of
           Inl e \<Rightarrow> Inl e
         | Inr kv \<Rightarrow>
             (case get_intvalue_from_knobs L ks kv of
                Inl e \<Rightarrow> Inl e
              | Inr ref_x \<Rightarrow>
                  if length ref_x \<noteq> length ks
                  then Inl (ValueError ''tuning parameter is not the same length with knobs'')
                  else transfer_loop L ks rest (list_ref_x @ [ref_x]))))"

text \<open>\<^verbatim>\<open>[float(y) for y in self.y0]\<close>.\<close>

fun float_list :: "'f pylib \<Rightarrow> 'f pyval list \<Rightarrow> exn + 'f list" where
  "float_list L [] = Inr []"
| "float_list L (y # ys) =
     (case py_float L y of
        Inl e \<Rightarrow> Inl e
      | Inr f \<Rightarrow> (case float_list L ys of Inl e \<Rightarrow> Inl e | Inr fs \<Rightarrow> Inr (f # fs)))"

definition transfer :: "'f pylib \<Rightarrow> 'f optimizer \<Rightarrow> exn + 'f pyval list list \<times> 'f list" where
  "transfer L w =
     (case x0 w of
        None \<Rightarrow> Inr ([], [])
      | Some xs \<Rightarrow>
          (case y0 w of
             None \<Rightarrow> Inr ([], [])
           | Some ys \<Rightarrow>
               (case transfer_loop L (knobs w) xs [] of
                  Inl e \<Rightarrow> Inl e
                | Inr list_ref_x \<Rightarrow>
                    (case float_list L ys of
                       Inl e \<Rightarrow> Inl e
                     | Inr list_ref_y \<Rightarrow> Inr (list_ref_x, list_ref_y)))))"

section \<open>\<^verbatim>\<open>run\<close>: the channel, the objective and the engines\<close>

text \<open>
  A named configuration is a dict from knob names to values, in insertion order. A
  message on the channel is a dict (\<^verbatim>\<open>param\<close>, \<^verbatim>\<open>rank\<close>, \<^verbatim>\<open>finished\<close>), an
  exception object sent as it is, or \<^verbatim>\<open>Exception("Unexpected Error:", repr(e))\<close>. The
  trace lists what the worker sent and received, in order.
\<close>

type_synonym 'f config = "(string \<times> 'f pyval) list"

fun dict_set :: "'k \<Rightarrow> 'v \<Rightarrow> ('k \<times> 'v) list \<Rightarrow> ('k \<times> 'v) list" where
  "dict_set k v [] = [(k, v)]"
| "dict_set k v ((k', v') # d) =
     (if k = k' then (k, v) # d else (k', v') # dict_set k v d)"

datatype 'f field = FParams "'f config" | FRank string | FBool bool

datatype 'f message = Dict "(string \<times> 'f field) list" | ExcObj exn | UnexpectedObj exn

datatype 'f event = Sent "'f message" | Received string

text \<open>
  The variables of \<^verbatim>\<open>run\<close> that \<^verbatim>\<open>objective\<close> closes over, and the channel's trace.
\<close>

record 'f locals =
  params :: "'f config"
  options :: "'f pyval list list"
  performance :: "'f list"
  trace :: "'f event list"

text \<open>
  The loop \<^verbatim>\<open>for i, knob in enumerate(self.knobs)\<close> that writes the components of a
  vector into \<^verbatim>\<open>params\<close>: the option at index \<^verbatim>\<open>var[i]\<close> for a string knob,
  \<^verbatim>\<open>var[i]\<close> itself otherwise.
\<close>

fun decode_loop ::
  "'f knob list \<Rightarrow> nat \<Rightarrow> 'f pyval list \<Rightarrow> 'f config \<Rightarrow> 'f config \<times> exn option" where
  "decode_loop [] i var ps = (ps, None)"
| "decode_loop (k # ks) i var ps =
     (case py_index var (int i) of
        Inl e \<Rightarrow> (ps, Some e)
      | Inr x \<Rightarrow>
          if k_dtype k = ''string'' then
            (case x of
               VInt j \<Rightarrow>
                 (case py_index (k_options k) j of
                    Inl e \<Rightarrow> (ps, Some e)
                  | Inr s \<Rightarrow> decode_loop ks (Suc i) var (dict_set (k_name k) (VStr s) ps))
             | _ \<Rightarrow> (ps, Some TypeError))
          else decode_loop ks (Suc i) var (dict_set (k_name k) x ps))"

text \<open>\<^verbatim>\<open>for value in eval_list: num = float(value); x_num = x_num + num\<close>.\<close>

fun sum_values :: "'f pylib \<Rightarrow> string list \<Rightarrow> 'f \<Rightarrow> exn + 'f" where
  "sum_values L [] x_num = Inr x_num"
| "sum_values L (v # vs) x_num =
     (case py_float L (VStr v) of
        Inl e \<Rightarrow> Inl e
      | Inr num \<Rightarrow> sum_values L vs (float_add L x_num num))"

text \<open>
  The harness answers a request with a string; \<open>H\<close> gives its answer from the trace up
  to and including the request.
\<close>

definition objective ::
  "'f pylib \<Rightarrow> 'f knob list \<Rightarrow> ('f event list \<Rightarrow> string) \<Rightarrow> 'f pyval list \<Rightarrow> 'f locals
     \<Rightarrow> (exn + 'f) \<times> 'f locals" where
  "objective L ks H var st =
     (case decode_loop ks 0 var (params st) of
        (ps, Some e) \<Rightarrow> (Inl e, st\<lparr>params := ps\<rparr>)
      | (ps, None) \<Rightarrow>
          (let st1 = st\<lparr>params := ps,
                         trace := trace st @ [Sent (Dict [(''param'', FParams ps)])]\<rparr>;
               result = H (trace st1);
               st2 = st1\<lparr>trace := trace st1 @ [Received result]\<rparr>
           in case sum_values L (py_split CHR '','' result) (float_zero L) of
                Inl e \<Rightarrow> (Inl e, st2)
              | Inr x_num \<Rightarrow>
                  (Inr x_num, st2\<lparr>options := options st2 @ [var],
                                  performance := performance st2 @ [x_num]\<rparr>)))"

text \<open>
  An external minimizer (\<^verbatim>\<open>dummy_minimize\<close>, \<^verbatim>\<open>gp_minimize\<close>) is a terminating
  procedure that calls the objective some number of times, each point chosen from the
  scores seen so far, and then returns its best point or raises. An exception of the
  objective passes through it unchanged.
\<close>

datatype 'f plan =
    Eval "'f pyval list" "'f \<Rightarrow> 'f plan"
  | Return "'f pyval list"
  | Fail exn

primrec drive ::
  "'f pylib \<Rightarrow> 'f knob list \<Rightarrow> ('f event list \<Rightarrow> string) \<Rightarrow> 'f plan \<Rightarrow> 'f locals
     \<Rightarrow> (exn + 'f pyval list) \<times> 'f locals" where
  "drive L ks H (Return x) = (\<lambda>st. (Inr x, st))"
| "drive L ks H (Fail e) = (\<lambda>st. (Inl e, st))"
| "drive L ks H (Eval var k) =
     (\<lambda>st. case objective L ks H var st of
              (Inl e, st') \<Rightarrow> (Inl e, st')
            | (Inr y, st') \<Rightarrow> drive L ks H (k y) st')"

text \<open>
  The collaborators: the two minimizers, the split-testing, sampling and Parzen
  managers (each with the events it puts on the channel and what it returns: trial
  vectors already converted to indices, scores and best configuration), and the
  ensemble feature selector.
\<close>

record 'f collab =
  dummy_minimize :: "'f dim list \<Rightarrow> int \<Rightarrow> 'f plan"
  gp_minimize ::
    "'f dim list \<Rightarrow> int \<Rightarrow> int \<Rightarrow> 'f pyval list list \<Rightarrow> 'f list option \<Rightarrow> 'f plan"
  abtest_tuning ::
    "'f knob list \<Rightarrow> int \<Rightarrow> ('f event list \<Rightarrow> string)
       \<Rightarrow> 'f event list \<times> (exn + 'f pyval list list \<times> 'f list \<times> 'f config)"
  lhs_tuning ::
    "'f knob list \<Rightarrow> int \<Rightarrow> int \<Rightarrow> ('f event list \<Rightarrow> string)
       \<Rightarrow> 'f event list \<times> (exn + 'f pyval list list \<times> 'f list \<times> 'f config)"
  tpe_tuning ::
    "'f knob list \<Rightarrow> int \<Rightarrow> ('f event list \<Rightarrow> string) \<Rightarrow> 'f event list \<times> (exn + 'f config)"
  ensemble_rank :: "'f pyval list list \<Rightarrow> 'f list \<Rightarrow> string list \<Rightarrow> exn + string"

text \<open>
  \<^verbatim>\<open>0 if len(ref_x) >= self._n_random_starts else self._n_random_starts - len(ref_x) + 1\<close>.
\<close>

definition adjust_random_starts :: "int \<Rightarrow> nat \<Rightarrow> int" where
  "adjust_random_starts n k = (if int k \<ge> n then 0 else n - int k + 1)"

text \<open>
  The first part of the \<^verbatim>\<open>try\<close> block: the space, the warm start, the fallback to the
  reference vector (\<^verbatim>\<open>ref_x[0]\<close> raises on an empty one) and the new
  \<^verbatim>\<open>self._n_random_starts\<close>.
\<close>

definition prepare ::
  "'f pylib \<Rightarrow> 'f optimizer
     \<Rightarrow> (exn + 'f dim list \<times> 'f pyval list list \<times> 'f list option) \<times> 'f optimizer" where
  "prepare L w =
     (case build_space L w of
        (Inl e, w1) \<Rightarrow> (Inl e, w1)
      | (Inr params_space, w1) \<Rightarrow>
          (case transfer L w1 of
             Inl e \<Rightarrow> (Inl e, w1)
           | Inr (list_ref_x, list_ref_y) \<Rightarrow>
               if list_ref_x = [] \<and> ref w1 = [] then (Inl IndexError, w1)
               else
                 (let ref_x = (if list_ref_x = [] then [ref w1] else list_ref_x);
                      ref_y = (if list_ref_x = [] then None else Some list_ref_y)
                  in (Inr (params_space, ref_x, ref_y),
                      w1\<lparr>n_random_starts :=
                            adjust_random_starts (n_random_starts w1) (length ref_x)\<rparr>))))"

text \<open>
  How the engine branch ends: \<^verbatim>\<open>ret\<close> bound to a result with best point \<^verbatim>\<open>ret.x\<close>,
  \<^verbatim>\<open>ret\<close> never assigned, or the early return of the tpe branch.
\<close>

datatype 'f search_end = Ret "'f pyval list" | NoRet | Tpe "'f config"

definition search ::
  "'f pylib \<Rightarrow> 'f collab \<Rightarrow> ('f event list \<Rightarrow> string) \<Rightarrow> 'f optimizer \<Rightarrow> 'f dim list
     \<Rightarrow> 'f pyval list list \<Rightarrow> 'f list option \<Rightarrow> 'f locals
     \<Rightarrow> (exn + 'f search_end) \<times> 'f locals" where
  "search L E H w params_space ref_x ref_y st =
     (if engine w = ''random'' then
        (case drive L (knobs w) H (dummy_minimize E params_space (max_eval w)) st of
           (Inl e, st') \<Rightarrow> (Inl e, st')
         | (Inr x, st') \<Rightarrow> (Inr (Ret x), st'))
      else if engine w = ''bayes'' then
        (case drive L (knobs w) H
                (gp_minimize E params_space (max_eval w) (n_random_starts w) ref_x ref_y) st of
           (Inl e, st') \<Rightarrow> (Inl e, st')
         | (Inr x, st') \<Rightarrow> (Inr (Ret x), st'))
      else if engine w = ''abtest'' then
        (case abtest_tuning E (knobs w) (split_count w) H of
           (evs, Inl e) \<Rightarrow> (Inl e, st\<lparr>trace := trace st @ evs\<rparr>)
         | (evs, Inr (opts, perf, best)) \<Rightarrow>
             (Inr NoRet, st\<lparr>params := best, options := opts, performance := perf,
                             trace := trace st @ evs\<rparr>))
      else if engine w = ''lhs'' then
        (case lhs_tuning E (knobs w) (max_eval w) (split_count w) H of
           (evs, Inl e) \<Rightarrow> (Inl e, st\<lparr>trace := trace st @ evs\<rparr>)
         | (evs, Inr (opts, perf, best)) \<Rightarrow>
             (Inr NoRet, st\<lparr>params := best, options := opts, performance := perf,
                             trace := trace st @ evs\<rparr>))
      else if engine w = ''tpe'' then
        (case tpe_tuning E (knobs w) (max_eval w) H of
           (evs, Inl e) \<Rightarrow> (Inl e, st\<lparr>trace := trace st @ evs\<rparr>)
         | (evs, Inr best_params) \<Rightarrow> (Inr (Tpe best_params), st\<lparr>trace := trace st @ evs\<rparr>))
      else (Inr NoRet, st))"

text \<open>
  What a run leaves behind: the trace of the channel, how \<^verbatim>\<open>run\<close> ended (it returned
  a configuration or \<^verbatim>\<open>None\<close>, or an exception left it), how often the feature
  selector was called, and the worker.
\<close>

datatype 'f outcome = Returned "'f config option" | Crashed exn

record 'f run_result =
  channel :: "'f event list"
  outcome :: "'f outcome"
  rank_calls :: nat
  worker :: "'f optimizer"

text \<open>The three \<^verbatim>\<open>except\<close> clauses: send the error, return \<^verbatim>\<open>None\<close>.\<close>

definition error_message :: "exn \<Rightarrow> 'f message" where
  "error_message e =
     (case e of
        ValueError _ \<Rightarrow> ExcObj e
      | RuntimeError _ \<Rightarrow> ExcObj e
      | _ \<Rightarrow> UnexpectedObj e)"

definition handle_exn :: "exn \<Rightarrow> 'f locals \<Rightarrow> 'f optimizer \<Rightarrow> 'f run_result" where
  "handle_exn e st w =
     \<lparr>channel = trace st @ [Sent (error_message e)], outcome = Returned None,
      rank_calls = 0, worker = w\<rparr>"

text \<open>
  The code after the \<^verbatim>\<open>try\<close> block. Its loop reads \<^verbatim>\<open>ret.x[i]\<close> for every knob,
  which raises when \<^verbatim>\<open>ret\<close> was never assigned; nothing catches an exception here.
\<close>

definition final_params ::
  "'f optimizer \<Rightarrow> 'f search_end \<Rightarrow> 'f locals \<Rightarrow> 'f config \<times> exn option" where
  "final_params w r st =
     (case r of
        Ret x \<Rightarrow> decode_loop (knobs w) 0 x (params st)
      | _ \<Rightarrow> if knobs w = [] then (params st, None)
             else (params st, Some (UnboundLocalError ''ret'')))"

definition finish ::
  "'f collab \<Rightarrow> 'f optimizer \<Rightarrow> 'f search_end \<Rightarrow> 'f locals \<Rightarrow> 'f run_result" where
  "finish E w r st =
     (case final_params w r st of
        (ps, Some e) \<Rightarrow>
          \<lparr>channel = trace st, outcome = Crashed e, rank_calls = 0, worker = w\<rparr>
      | (ps, None) \<Rightarrow>
          (case ensemble_rank E (options st) (performance st) (map k_name (knobs w)) of
             Inl e \<Rightarrow>
               \<lparr>channel = trace st, outcome = Crashed e, rank_calls = 1, worker = w\<rparr>
           | Inr rank \<Rightarrow>
               \<lparr>channel = trace st @
                   [Sent (Dict [(''param'', FParams ps), (''rank'', FRank rank),
                                (''finished'', FBool True)])],
                outcome = Returned (Some ps), rank_calls = 1, worker = w\<rparr>))"

definition run ::
  "'f pylib \<Rightarrow> 'f collab \<Rightarrow> ('f event list \<Rightarrow> string) \<Rightarrow> 'f optimizer \<Rightarrow> 'f run_result" where
  "run L E H w =
     (let st0 = \<lparr>params = [], options = [], performance = [], trace = []\<rparr> in
      case prepare L w of
        (Inl e, w1) \<Rightarrow> handle_exn e st0 w1
      | (Inr (params_space, ref_x, ref_y), w1) \<Rightarrow>
          (case search L E H w1 params_space ref_x ref_y st0 of
             (Inl e, st) \<Rightarrow> handle_exn e st w1
           | (Inr (Tpe best_params), st) \<Rightarrow>
               \<lparr>channel = trace st @
                   [Sent (Dict [(''finished'', FBool True), (''param'', FParams best_params)])],
                outcome = Returned (Some best_params), rank_calls = 0, worker = w1\<rparr>
           | (Inr r, st) \<Rightarrow> finish E w1 r st))"

section \<open>\<^verbatim>\<open>feature_importance\<close>\<close>

text \<open>
  The coefficients come from the regression (\<^verbatim>\<open>StandardScaler\<close> and \<^verbatim>\<open>Lasso\<close>), the
  parameter \<open>lasso\<close>; they are numbers of an ordered field, \<open>rnd\<close> is
  \<^verbatim>\<open>round(x, 2)\<close> and \<open>shw\<close> prints a number. \<open>feature_shares\<close> is the list of
  labels and rounded shares that the last \<^verbatim>\<open>join\<close> prints.
\<close>

fun py_join :: "string \<Rightarrow> string list \<Rightarrow> string" where
  "py_join sep [] = []"
| "py_join sep [x] = x"
| "py_join sep (x # y # ys) = x @ sep @ py_join sep (y # ys)"

definition feature_shares ::
  "('a \<Rightarrow> 'a) \<Rightarrow> ('a :: linordered_field) list \<Rightarrow> string list \<Rightarrow> (string \<times> 'a) list" where
  "feature_shares rnd coef labels =
     (let total_sum = sum_list (map abs coef);
          result = sort_key (\<lambda>x. - \<bar>fst x\<bar>) (zip coef labels)
      in map (\<lambda>(c, label). (label, rnd (c * 100 / total_sum))) result)"

definition feature_importance ::
  "('o \<Rightarrow> 'p \<Rightarrow> ('a :: linordered_field) list) \<Rightarrow> ('a \<Rightarrow> 'a) \<Rightarrow> ('a \<Rightarrow> string)
     \<Rightarrow> 'o \<Rightarrow> 'p \<Rightarrow> string list \<Rightarrow> string" where
  "feature_importance lasso rnd shw opts perf labels =
     (let coef = lasso opts perf;
          total_sum = sum_list (map abs coef)
      in if total_sum = 0 then py_join '', '' (map (\<lambda>label. label @ '': 0'') labels)
         else py_join '', ''
                (map (\<lambda>(label, v). label @ '': '' @ shw v @ ''%'')
                     (feature_shares rnd coef labels)))"

section \<open>A library instance for running the model\<close>

text \<open>
  To evaluate the model on concrete inputs the library is instantiated: \<^verbatim>\<open>int(s)\<close>
  reads ASCII decimal literals, and the float operations are exact rational arithmetic,
  where \<^verbatim>\<open>float(s)\<close> reads plain decimal literals (a sign, digits, at most one point),
  \<^verbatim>\<open>int(f)\<close> truncates towards zero, \<^verbatim>\<open>np.arange\<close> steps exactly and
  \<^verbatim>\<open>list(set(xs))\<close> keeps the first occurrences in order. The instance is used only
  in the concrete examples; the general theorems do not refer to it.
\<close>

subsection \<open>Decimal literals\<close>

text \<open>
  \<^verbatim>\<open>int(s)\<close> for a string of ASCII characters: blanks (tab, line feed, vertical tab,
  form feed, carriage return, space) around an optional sign and digits, with single
  underscores allowed between two digits and at most 4300 digits.
\<close>

definition is_space :: "char \<Rightarrow> bool" where
  "is_space c = (of_char c \<in> {9, 10, 11, 12, 13, 32 :: nat})"

definition is_digit :: "char \<Rightarrow> bool" where
  "is_digit c = (48 \<le> (of_char c :: nat) \<and> (of_char c :: nat) \<le> 57)"

definition digit_val :: "char \<Rightarrow> int" where
  "digit_val c = int (of_char c) - 48"

definition strip :: "string \<Rightarrow> string" where
  "strip s = rev (dropWhile is_space (rev (dropWhile is_space s)))"

fun parse_digits :: "string \<Rightarrow> int \<Rightarrow> int option" where
  "parse_digits [] acc = Some acc"
| "parse_digits (c # cs) acc =
     (if is_digit c then parse_digits cs (acc * 10 + digit_val c)
      else if c = CHR ''_'' \<and> cs \<noteq> [] \<and> is_digit (hd cs) then parse_digits cs acc
      else None)"

definition parse_unsigned :: "string \<Rightarrow> int option" where
  "parse_unsigned s =
     (case s of [] \<Rightarrow> None
      | c # cs \<Rightarrow> if is_digit c then parse_digits s 0 else None)"

definition decimal_int_of_str :: "string \<Rightarrow> int option" where
  "decimal_int_of_str s =
     (if 4300 < length (filter is_digit s) then None
      else
        (case strip s of
           [] \<Rightarrow> None
         | c # cs \<Rightarrow>
             if c = CHR ''-'' then map_option uminus (parse_unsigned cs)
             else if c = CHR ''+'' then parse_unsigned cs
             else parse_unsigned (c # cs)))"

subsection \<open>Floats as rationals\<close>

definition num_val :: "rat pyval \<Rightarrow> rat" where
  "num_val v = (case v of VInt i \<Rightarrow> of_int i | VFloat f \<Rightarrow> f | _ \<Rightarrow> 0)"

definition digits_or_empty :: "string \<Rightarrow> int option" where
  "digits_or_empty s = (if s = [] then Some 0 else parse_unsigned s)"

definition dec_of_str :: "string \<Rightarrow> rat option" where
  "dec_of_str s =
     (case py_split CHR ''.'' s of
        [ip] \<Rightarrow> map_option of_int (parse_unsigned ip)
      | [ip, fp] \<Rightarrow>
          if ip = [] \<and> fp = [] then None
          else (case (digits_or_empty ip, digits_or_empty fp) of
                  (Some a, Some b) \<Rightarrow>
                    Some (of_int a + of_int b / 10 ^ length (filter is_digit fp))
                | _ \<Rightarrow> None)
      | _ \<Rightarrow> None)"

definition rat_of_str :: "string \<Rightarrow> rat option" where
  "rat_of_str s =
     (case strip s of
        [] \<Rightarrow> None
      | c # cs \<Rightarrow>
          if c = CHR ''-'' then map_option uminus (dec_of_str cs)
          else if c = CHR ''+'' then dec_of_str cs
          else dec_of_str (c # cs))"

definition rat_arange :: "rat pyval \<Rightarrow> rat pyval \<Rightarrow> rat pyval \<Rightarrow> exn + rat pyval list" where
  "rat_arange a b s =
     (if \<not> (is_num a \<and> is_num b \<and> is_num s) then Inl TypeError
      else if num_val s = 0 then Inl ZeroDivisionError
      else Inr (map (\<lambda>i. VFloat (num_val a + of_nat i * num_val s))
                    [0 ..< nat \<lceil>(num_val b - num_val a) / num_val s\<rceil>]))"

definition ideal_lib :: "rat pylib" where
  "ideal_lib =
     \<lparr>float_of_int = (\<lambda>i. Inr (of_int i)),
      float_of_str = rat_of_str,
      int_of_str = decimal_int_of_str,
      int_of_float = (\<lambda>q. Inr (if 0 \<le> q then \<lfloor>q\<rfloor> else \<lceil>q\<rceil>)),
      num_lt = (\<lambda>a b. num_val a < num_val b),
      num_eq = (\<lambda>a b. num_val a = num_val b),
      float_add = (+),
      float_zero = 0,
      float_one = 1,
      float_tenth = 1 / 10,
      arange_float = rat_arange,
      list_set = remdups\<rparr>"

text \<open>\<^verbatim>\<open>round(x, 2)\<close> on exact values: to the nearest hundredth, ties to even.\<close>

definition round_half_even :: "rat \<Rightarrow> int" where
  "round_half_even x =
     (let f = \<lfloor>x\<rfloor>; d = x - of_int f
      in if d < 1 / 2 then f else if 1 / 2 < d then f + 1
         else if even f then f else f + 1)"

definition round2 :: "rat \<Rightarrow> rat" where
  "round2 x = of_int (round_half_even (x * 100)) / 100"

section \<open>Concrete knobs, collaborators and harnesses\<close>

text \<open>
  The inputs of the examples below: a continuous int knob \<open>x\<close> in \<open>[0, 10]\<close>, a
  continuous int knob whose bounds and reference are not yet ints, a continuous float
  knob, a continuous knob whose dtype is \<^verbatim>\<open>string\<close>, a discrete int
  knob with explicit items and a range, and two string knobs, one of them listing an
  option twice.
\<close>

definition knob_x :: "rat knob" where
  "knob_x = \<lparr>k_name = ''x'', k_type = ''continuous'', k_dtype = ''int'',
     k_range = Some [VInt 0, VInt 10], k_items = None, k_options = [], k_step = None,
     k_ref = VInt 5\<rparr>"

definition knob_ratio :: "rat knob" where
  "knob_ratio = \<lparr>k_name = ''ratio'', k_type = ''continuous'', k_dtype = ''float'',
     k_range = Some [VFloat 0, VFloat 1], k_items = None, k_options = [], k_step = None,
     k_ref = VFloat (1 / 4)\<rparr>"

definition knob_cont_string :: "rat knob" where
  "knob_cont_string = \<lparr>k_name = ''b'', k_type = ''continuous'', k_dtype = ''string'',
     k_range = Some [VInt 0, VInt 10], k_items = None, k_options = [], k_step = None,
     k_ref = VStr ''x''\<rparr>"

definition knob_level :: "rat knob" where
  "knob_level = \<lparr>k_name = ''level'', k_type = ''discrete'', k_dtype = ''int'',
     k_range = Some [VInt 1, VInt 3], k_items = Some [VInt 1], k_options = [],
     k_step = None, k_ref = VInt 2\<rparr>"

definition knob_loose :: "rat knob" where
  "knob_loose = \<lparr>k_name = ''depth'', k_type = ''continuous'', k_dtype = ''int'',
     k_range = Some [VStr ''0'', VFloat (21 / 2)], k_items = None, k_options = [],
     k_step = None, k_ref = VStr ''4''\<rparr>"

definition knob_mode :: "rat knob" where
  "knob_mode = \<lparr>k_name = ''mode'', k_type = ''discrete'', k_dtype = ''string'',
     k_range = None, k_items = None, k_options = [''a'', ''b'', ''c''], k_step = None,
     k_ref = VStr ''b''\<rparr>"

definition knob_dup :: "rat knob" where
  "knob_dup = \<lparr>k_name = ''sched'', k_type = ''discrete'', k_dtype = ''string'',
     k_range = None, k_items = None, k_options = [''on'', ''off'', ''on''], k_step = None,
     k_ref = VStr ''on''\<rparr>"

text \<open>
  Collaborators for the examples: a minimizer that evaluates the points 3 and 7 and
  returns the better one, a Bayesian one that evaluates its first warm-start point, and
  managers that return a fixed best configuration without using the channel.
\<close>

definition demo_collab :: "rat collab" where
  "demo_collab =
     \<lparr>dummy_minimize = (\<lambda>space n.
        Eval [VInt 3] (\<lambda>y. Eval [VInt 7] (\<lambda>y'. Return (if y \<le> y' then [VInt 3] else [VInt 7])))),
      gp_minimize = (\<lambda>space n r xs ys. Eval (hd xs) (\<lambda>y. Return (hd xs))),
      abtest_tuning = (\<lambda>ks n H. ([], Inr ([[VInt 4]], [1], [(''x'', VInt 4)]))),
      lhs_tuning = (\<lambda>ks n c H. ([], Inr ([[VInt 4]], [1], [(''x'', VInt 4)]))),
      tpe_tuning = (\<lambda>ks n H. ([], Inr [(''x'', VInt 4)])),
      ensemble_rank = (\<lambda>os ps ls. Inr ''x: 100.0%'')\<rparr>"

definition good_harness :: "rat event list \<Rightarrow> string" where
  "good_harness t = ''1.5,2''"

definition bad_harness :: "rat event list \<Rightarrow> string" where
  "bad_harness t = ''1.5,abc''"

section \<open>What a call may change in a knob descriptor\<close>

text \<open>
  \<open>descriptor_kept p p'\<close> relates a descriptor to its state after a call: name, type,
  dtype, options, step and ref are the same; the range is the same unless the knob is
  continuous, and then it still has its length; the items are the same unless the knob
  is discrete, and then the old items are a prefix of the new ones.
\<close>

definition descriptor_kept :: "'f knob \<Rightarrow> 'f knob \<Rightarrow> bool" where
  "descriptor_kept p p' =
     (k_name p' = k_name p \<and> k_type p' = k_type p \<and> k_dtype p' = k_dtype p \<and>
      k_options p' = k_options p \<and> k_step p' = k_step p \<and> k_ref p' = k_ref p \<and>
      (k_type p = ''continuous'' \<or> k_range p' = k_range p) \<and>
      map_option length (k_range p') = map_option length (k_range p) \<and>
      (k_type p = ''discrete'' \<or> k_items p' = k_items p) \<and>
      (case k_items p of
         None \<Rightarrow> k_items p' = None
       | Some xs \<Rightarrow> (case k_items p' of
                       None \<Rightarrow> False
                     | Some ys \<Rightarrow> take (length xs) ys = xs)))"

section \<open>What the channel carries during a search\<close>

text \<open>
  A response is malformed when one of its comma-separated parts is not a float literal.
  An exchange is a suggested configuration sent by the worker (a dict with the single
  key \<^verbatim>\<open>param\<close>) or a response received.
\<close>

definition malformed :: "'f pylib \<Rightarrow> string \<Rightarrow> bool" where
  "malformed L result = list_ex (\<lambda>v. float_of_str L v = None) (py_split CHR '','' result)"

definition is_exchange :: "'f event \<Rightarrow> bool" where
  "is_exchange ev =
     (case ev of
        Received r \<Rightarrow> True
      | Sent msg \<Rightarrow>
          (case msg of
             Dict d \<Rightarrow> (case d of
                          [(k, FParams ps)] \<Rightarrow> k = ''param''
                        | _ \<Rightarrow> False)
           | _ \<Rightarrow> False))"

section \<open>Warm-start entries that name every knob once\<close>

text \<open>
  The conditions under which \<^verbatim>\<open>transfer\<close> accepts an entry, and the vector it then
  produces. A token \<^verbatim>\<open>name=value\<close> has a name and a value; \<open>put_token\<close> is the
  assignment \<^verbatim>\<open>kv[params[0]] = params[1]\<close>. An entry is accepted when it has one
  token per knob, every token has exactly two parts, every knob's name is the name of
  exactly one token, and the value named for a knob is one that \<^verbatim>\<open>int\<close> reads (dtype
  \<^verbatim>\<open>int\<close>) or occurs exactly once among the options (dtype \<^verbatim>\<open>string\<close>). Nothing
  is said about knobs of another dtype. The vector has, at the position of each knob,
  the int or the index of the option.
\<close>

definition token_name :: "string \<Rightarrow> string" where
  "token_name tok = py_split CHR ''='' tok ! 0"

definition token_value :: "string \<Rightarrow> string" where
  "token_value tok = py_split CHR ''='' tok ! 1"

definition put_token :: "string \<Rightarrow> (string \<rightharpoonup> string) \<Rightarrow> (string \<rightharpoonup> string)" where
  "put_token tok kv = kv(token_name tok \<mapsto> token_value tok)"

definition value_of :: "string list \<Rightarrow> string \<Rightarrow> string" where
  "value_of entry name = token_value (hd (filter (\<lambda>tok. token_name tok = name) entry))"

definition encode_value :: "'f pylib \<Rightarrow> 'f knob \<Rightarrow> string \<Rightarrow> 'f pyval" where
  "encode_value L p v =
     (if k_dtype p = ''string''
      then VInt (int (length (takeWhile (\<lambda>opt. opt \<noteq> v) (k_options p))))
      else VInt (the (int_of_str L v)))"

definition encode_entry :: "'f pylib \<Rightarrow> 'f knob list \<Rightarrow> string list \<Rightarrow> 'f pyval list" where
  "encode_entry L ks entry = map (\<lambda>p. encode_value L p (value_of entry (k_name p))) ks"

definition value_ok :: "'f pylib \<Rightarrow> 'f knob \<Rightarrow> string \<Rightarrow> bool" where
  "value_ok L p v =
     (if k_dtype p = ''int'' then int_of_str L v \<noteq> None
      else if k_dtype p = ''string''
      then length (filter (\<lambda>opt. opt = v) (k_options p)) = 1
      else False)"

definition entry_ok :: "'f pylib \<Rightarrow> 'f knob list \<Rightarrow> string list \<Rightarrow> bool" where
  "entry_ok L ks entry =
     (length entry = length ks \<and>
      list_all (\<lambda>tok. length (py_split CHR ''='' tok) = 2) entry \<and>
      list_all (\<lambda>p. length (filter (\<lambda>tok. token_name tok = k_name p) entry) = 1 \<and>
                     value_ok L p (value_of entry (k_name p))) ks)"

section \<open>What a successful build has written\<close>

text \<open>
  \<open>written L p\<close> is the descriptor \<open>p\<close> after an iteration of \<^verbatim>\<open>build_space\<close> that
  did not raise. The range of a continuous knob of dtype int or float holds its two
  bounds after \<^verbatim>\<open>int\<close> or \<^verbatim>\<open>float\<close>. The items of a discrete knob of dtype int or
  float that has both items and a range hold the old items followed by what
  \<^verbatim>\<open>np.arange\<close> gives for each pair of the range, at the step of the knob, the upper
  bound being \<^verbatim>\<open>high + 1\<close> for dtype int and \<^verbatim>\<open>high\<close> for dtype float.
\<close>

fun range_pairs :: "'a list \<Rightarrow> ('a \<times> 'a) list" where
  "range_pairs (lo # hi # rest) = (lo, hi) # range_pairs rest"
| "range_pairs r = []"

definition arange_values ::
  "'f pylib \<Rightarrow> bool \<Rightarrow> 'f pyval \<Rightarrow> 'f pyval \<times> 'f pyval \<Rightarrow> 'f pyval list" where
  "arange_values L inc st b =
     (case (if inc then py_add1 L (snd b) else Inr (snd b)) of
        Inl e \<Rightarrow> []
      | Inr hi' \<Rightarrow> (case np_arange L (fst b) hi' st of Inl e \<Rightarrow> [] | Inr vs \<Rightarrow> vs))"

definition generated :: "'f pylib \<Rightarrow> bool \<Rightarrow> 'f pyval \<Rightarrow> 'f pyval list \<Rightarrow> 'f pyval list" where
  "generated L inc st r = concat (map (arange_values L inc st) (range_pairs r))"

definition coerced_int :: "'f pylib \<Rightarrow> 'f pyval \<Rightarrow> 'f pyval" where
  "coerced_int L v = (case py_int L v of Inl e \<Rightarrow> v | Inr i \<Rightarrow> VInt i)"

definition coerced_float :: "'f pylib \<Rightarrow> 'f pyval \<Rightarrow> 'f pyval" where
  "coerced_float L v = (case py_float L v of Inl e \<Rightarrow> v | Inr f \<Rightarrow> VFloat f)"

definition written_range :: "'f pylib \<Rightarrow> 'f knob \<Rightarrow> 'f pyval list option" where
  "written_range L p =
     (case k_range p of
        Some [lo, hi] \<Rightarrow>
          if k_dtype p = ''int'' then Some [coerced_int L lo, coerced_int L hi]
          else if k_dtype p = ''float'' then Some [coerced_float L lo, coerced_float L hi]
          else k_range p
      | _ \<Rightarrow> k_range p)"

definition written_items :: "'f pylib \<Rightarrow> 'f knob \<Rightarrow> 'f pyval list option" where
  "written_items L p =
     (case k_items p of
        None \<Rightarrow> None
      | Some xs \<Rightarrow>
          (case k_range p of
             None \<Rightarrow> Some xs
           | Some r \<Rightarrow>
               if k_dtype p = ''int'' then
                 (case int_step L p of
                    Inl e \<Rightarrow> Some xs
                  | Inr st \<Rightarrow> Some (xs @ generated L True st r))
               else if k_dtype p = ''float'' then
                 (case float_step L p of
                    Inl e \<Rightarrow> Some xs
                  | Inr st \<Rightarrow> Some (xs @ generated L False st r))
               else Some xs))"

definition written :: "'f pylib \<Rightarrow> 'f knob \<Rightarrow> 'f knob" where
  "written L p =
     (if k_type p = ''discrete'' then p\<lparr>k_items := written_items L p\<rparr>
      else if k_type p = ''continuous'' then p\<lparr>k_range := written_range L p\<rparr>
      else p)"

section \<open>Properties of the space builder\<close>

lemma enumerate_options_eq:
  "enumerate_options r k opts keys refs =
     (keys @ map (\<lambda>(i, v). VInt (int i)) (List.enumerate k opts),
      refs @ map (\<lambda>(i, v). VInt (int i)) (filter (\<lambda>(i, v). r = VStr v) (List.enumerate k opts)))"
  by (induction opts arbitrary: k keys refs) simp_all

text \<open>
  C10. For a knob of dtype \<^verbatim>\<open>string\<close>, \<^verbatim>\<open>handle_discrete_data\<close> leaves the knob as it
  is and appends to \<^verbatim>\<open>self.ref\<close> the index of every position of \<^verbatim>\<open>options\<close> whose
  value equals \<^verbatim>\<open>ref\<close>, in order: one entry for one match, several entries for
  several matches. It raises the out-of-range error exactly when no position matches,
  and otherwise returns the indices of all options.
\<close>

theorem handle_discrete_string_ref_entries:
  "k_dtype p = ''string'' \<Longrightarrow>
   handle_discrete_data L p refs =
     (let hits = filter (\<lambda>(i, v). k_ref p = VStr v) (List.enumerate 0 (k_options p)) in
      (p, refs @ map (\<lambda>(i, v). VInt (int i)) hits,
       if hits = []
       then Inl (ValueError (''the ref value of '' @ k_name p @ '' is out of range''))
       else Inr (map (\<lambda>(i, v). VInt (int i)) (List.enumerate 0 (k_options p)))))"
  by (simp add: handle_discrete_data_def handle_discrete_string_def enumerate_options_eq Let_def)

theorem handle_discrete_string_ref_entries_witness:
  "k_dtype knob_dup = ''string'' \<and>
   handle_discrete_data ideal_lib knob_dup [VInt 5] =
     (knob_dup, [VInt 5, VInt 0, VInt 2], Inr [VInt 0, VInt 1, VInt 2])"
  using handle_discrete_string_ref_entries [of knob_dup ideal_lib "[VInt 5]"]
  by (simp add: knob_dup_def)

text \<open>
  C1. The claim is that a successful \<^verbatim>\<open>build_space\<close> leaves one reference entry per
  knob. The string knob \<open>sched\<close> lists its reference value \<^verbatim>\<open>on\<close> twice: the build
  succeeds with one dimension, and the reference vector has two entries for the one
  knob.
\<close>

theorem build_space_duplicate_option:
  "fst (build_space ideal_lib (init_optimizer [knob_dup] ''bayes'' 50 None None None))
     = Inr [Candidates [VInt 0, VInt 1, VInt 2]] \<and>
   ref (snd (build_space ideal_lib (init_optimizer [knob_dup] ''bayes'' 50 None None None)))
     = [VInt 0, VInt 2]"
  by code_simp

text \<open>
  C5. The claim is that an unsupported dtype fails the build with a value error. A
  continuous knob of dtype \<^verbatim>\<open>string\<close> that follows a continuous int knob is
  accepted, with the reference value of the knob before it; as the first knob it
  raises \<^verbatim>\<open>UnboundLocalError\<close>, which \<^verbatim>\<open>run\<close> reports as an unexpected error.
\<close>

theorem build_space_continuous_string_dtype:
  "fst (build_space ideal_lib
          (init_optimizer [knob_x, knob_cont_string] ''bayes'' 50 None None None))
     = Inr [Interval (VInt 0) (VInt 10), Interval (VInt 0) (VInt 10)] \<and>
   ref (snd (build_space ideal_lib
          (init_optimizer [knob_x, knob_cont_string] ''bayes'' 50 None None None)))
     = [VInt 5, VInt 5] \<and>
   fst (build_space ideal_lib (init_optimizer [knob_cont_string] ''bayes'' 50 None None None))
     = Inl (UnboundLocalError ''ref_value'') \<and>
   channel (run ideal_lib demo_collab good_harness
          (init_optimizer [knob_cont_string] ''bayes'' 50 None None None))
     = [Sent (UnexpectedObj (UnboundLocalError ''ref_value''))]"
  by code_simp

section \<open>The shape of a run\<close>

lemma prepare_engine:
  "prepare L w = (res, w1) \<Longrightarrow> engine w1 = engine w"
  by (auto simp: prepare_def build_space_def Let_def split: prod.splits sum.splits if_splits)

lemma search_minimizer:
  assumes "engine w = ''random'' \<or> engine w = ''bayes''"
  shows "\<exists>plan. search L E H w sp rx ry st =
           (case drive L (knobs w) H plan st of
              (Inl e, st') \<Rightarrow> (Inl e, st')
            | (Inr x, st') \<Rightarrow> (Inr (Ret x), st'))"
proof (cases "engine w = ''random''")
  case True
  then have "search L E H w sp rx ry st =
           (case drive L (knobs w) H (dummy_minimize E sp (max_eval w)) st of
              (Inl e, st') \<Rightarrow> (Inl e, st')
            | (Inr x, st') \<Rightarrow> (Inr (Ret x), st'))"
    by (simp add: search_def)
  then show ?thesis by (rule exI)
next
  case False
  with assms have "engine w = ''bayes''" by simp
  then have "search L E H w sp rx ry st =
           (case drive L (knobs w) H
                   (gp_minimize E sp (max_eval w) (n_random_starts w) rx ry) st of
              (Inl e, st') \<Rightarrow> (Inl e, st')
            | (Inr x, st') \<Rightarrow> (Inr (Ret x), st'))"
    by (simp add: search_def)
  then show ?thesis by (rule exI)
qed

lemma search_end_engine:
  "search L E H w sp rx ry st = (Inr r, st') \<Longrightarrow> (engine w = ''tpe'') = (\<exists>b. r = Tpe b)"
  unfolding search_def
  by (simp split: if_splits prod.splits sum.splits) auto

lemma finish_cases:
  "(channel (finish E w r st) = trace st \<and> (\<exists>e. outcome (finish E w r st) = Crashed e)) \<or>
   (\<exists>ps rank. channel (finish E w r st) = trace st @
        [Sent (Dict [(''param'', FParams ps), (''rank'', FRank rank), (''finished'', FBool True)])] \<and>
      outcome (finish E w r st) = Returned (Some ps) \<and> rank_calls (finish E w r st) = 1)"
proof (cases "final_params w r st")
  case (Pair ps err)
  show ?thesis
  proof (cases err)
    case (Some e)
    with Pair show ?thesis by (simp add: finish_def)
  next
    case None
    show ?thesis
    proof (cases "ensemble_rank E (options st) (performance st) (map k_name (knobs w))")
      case (Inl e)
      with Pair None show ?thesis by (simp add: finish_def)
    next
      case (Inr rank)
      with Pair None show ?thesis by (simp add: finish_def)
    qed
  qed
qed


lemma finish_worker: "worker (finish E w r st) = w"
  by (cases "final_params w r st"; cases "snd (final_params w r st)";
      cases "ensemble_rank E (options st) (performance st) (map k_name (knobs w))")
     (simp_all add: finish_def)

lemma run_cases:
  obtains
    (not_prepared) e w1 where "prepare L w = (Inl e, w1)"
      "run L E H w = handle_exn e \<lparr>params = [], options = [], performance = [], trace = []\<rparr> w1"
  | (failed) sp rx ry w1 e st where "prepare L w = (Inr (sp, rx, ry), w1)"
      "search L E H w1 sp rx ry \<lparr>params = [], options = [], performance = [], trace = []\<rparr>
         = (Inl e, st)"
      "run L E H w = handle_exn e st w1"
  | (tpe) sp rx ry w1 best st where "prepare L w = (Inr (sp, rx, ry), w1)"
      "search L E H w1 sp rx ry \<lparr>params = [], options = [], performance = [], trace = []\<rparr>
         = (Inr (Tpe best), st)"
      "run L E H w = \<lparr>channel = trace st @
           [Sent (Dict [(''finished'', FBool True), (''param'', FParams best)])],
         outcome = Returned (Some best), rank_calls = 0, worker = w1\<rparr>"
  | (ranked) sp rx ry w1 r st where "prepare L w = (Inr (sp, rx, ry), w1)"
      "search L E H w1 sp rx ry \<lparr>params = [], options = [], performance = [], trace = []\<rparr>
         = (Inr r, st)"
      "\<forall>b. r \<noteq> Tpe b"
      "run L E H w = finish E w1 r st"
proof (cases "prepare L w")
  case (Pair pres w1)
  show ?thesis
  proof (cases pres)
    case (Inl e)
    with Pair not_prepared show ?thesis by (simp add: run_def)
  next
    case (Inr trip)
    obtain sp rx ry where trip: "trip = (sp, rx, ry)" by (cases trip) auto
    let ?st0 = "\<lparr>params = [], options = [], performance = [], trace = []\<rparr> :: 'a locals"
    obtain sres st where sr: "search L E H w1 sp rx ry ?st0 = (sres, st)"
      by (cases "search L E H w1 sp rx ry ?st0") auto
    show ?thesis
    proof (cases sres)
      case (Inl e)
      with Pair Inr trip sr failed show ?thesis by (simp add: run_def)
    next
      case inner: (Inr r)
      show ?thesis
      proof (cases r)
        case (Tpe best)
        with Pair Inr trip sr inner tpe show ?thesis by (simp add: run_def)
      next
        case (Ret x)
        with Pair Inr trip sr inner ranked [of sp rx ry w1 r st] show ?thesis
          by (simp add: run_def)
      next
        case NoRet
        with Pair Inr trip sr inner ranked [of sp rx ry w1 r st] show ?thesis
          by (simp add: run_def)
      qed
    qed
  qed
qed


lemma prepare_knobs:
  "knobs (snd (prepare L w)) = knobs (snd (build_space L w))"
  by (auto simp: prepare_def Let_def split: prod.splits sum.splits)

lemma run_worker: "worker (run L E H w) = snd (prepare L w)"
  by (cases rule: run_cases [where L = L and w = w and E = E and H = H])
     (simp_all add: handle_exn_def finish_worker)

lemma run_worker_knobs:
  "knobs (worker (run L E H w)) = knobs (snd (build_space L w))"
  by (simp only: run_worker prepare_knobs)

section \<open>What the space builder writes to the knobs\<close>

lemma descriptor_kept_refl: "descriptor_kept p p"
  by (simp add: descriptor_kept_def split: option.splits)

lemma extend_ranges_appends:
  "\<exists>ext. fst (extend_ranges L inc st r items) = items @ ext"
proof (induction L inc st r items rule: extend_ranges.induct)
  case (1 L inc st lo hi rest items)
  show ?case
  proof (cases "if inc then py_add1 L hi else Inr hi")
    case (Inl e)
    then show ?thesis by simp
  next
    case (Inr hi')
    show ?thesis
    proof (cases "np_arange L lo hi' st")
      case (Inl e)
      with Inr show ?thesis by simp
    next
      case inner: (Inr vs)
      from 1 [OF Inr inner] obtain ext
        where "fst (extend_ranges L inc st rest (items @ vs)) = (items @ vs) @ ext" by blast
      with Inr inner show ?thesis by simp
    qed
  qed
qed simp_all

lemma extend_ranges_take:
  "extend_ranges L inc st r items = (items1, err) \<Longrightarrow> take (length items) items1 = items"
  using extend_ranges_appends [of L inc st r items] by auto

lemma handle_discrete_int_kept:
  "handle_discrete_int L p refs = (p', refs', r) \<Longrightarrow> k_type p = ''discrete'' \<Longrightarrow> descriptor_kept p p'"
  by (auto simp: handle_discrete_int_def descriptor_kept_def Let_def
           split: sum.splits option.splits prod.splits dest: extend_ranges_take)

lemma handle_discrete_float_kept:
  "handle_discrete_float L p refs = (p', refs', r) \<Longrightarrow> k_type p = ''discrete'' \<Longrightarrow> descriptor_kept p p'"
  by (auto simp: handle_discrete_float_def descriptor_kept_def Let_def
           split: sum.splits option.splits prod.splits dest: extend_ranges_take)

lemma handle_discrete_data_kept:
  "handle_discrete_data L p refs = (p', refs', r) \<Longrightarrow> k_type p = ''discrete'' \<Longrightarrow> descriptor_kept p p'"
  by (auto simp: handle_discrete_data_def handle_discrete_string_def descriptor_kept_refl
           split: if_splits prod.splits
           intro: handle_discrete_int_kept handle_discrete_float_kept)

lemma build_continuous_kept:
  "build_continuous L p refs rv = (p', refs', rv', r) \<Longrightarrow> k_type p = ''continuous'' \<Longrightarrow> descriptor_kept p p'"
  by (auto simp: build_continuous_def descriptor_kept_def Let_def
           split: sum.splits option.splits prod.splits if_splits)

lemma build_knob_kept:
  "build_knob L p refs rv = (p', refs', rv', r) \<Longrightarrow> descriptor_kept p p'"
  by (auto simp: build_knob_def descriptor_kept_refl
           split: if_splits prod.splits sum.splits
           intro: handle_discrete_data_kept build_continuous_kept)

lemma build_space_loop_kept:
  "build_space_loop L ks refs rv acc = (ks', refs', r) \<Longrightarrow> list_all2 descriptor_kept ks ks'"
proof (induction ks arbitrary: refs rv acc ks' refs' r)
  case Nil
  then show ?case by simp
next
  case (Cons p ps)
  obtain p' refs1 rv1 r1 where step: "build_knob L p refs rv = (p', refs1, rv1, r1)"
    by (cases "build_knob L p refs rv") auto
  have kept: "descriptor_kept p p'" using step by (rule build_knob_kept)
  show ?case
  proof (cases r1)
    case (Inl e)
    with Cons.prems step have "ks' = p' # ps" by simp
    with kept show ?thesis by (simp add: list_all2_refl descriptor_kept_refl)
  next
    case (Inr d)
    obtain ps' refs2 r2 where rest: "build_space_loop L ps refs1 rv1 (acc @ [d]) = (ps', refs2, r2)"
      by (cases "build_space_loop L ps refs1 rv1 (acc @ [d])") auto
    with Cons.prems step Inr have "ks' = p' # ps'" by simp
    with kept Cons.IH [OF rest] show ?thesis by simp
  qed
qed

lemma extend_ranges_generated:
  "extend_ranges L inc st r items = (items1, None) \<Longrightarrow> items1 = items @ generated L inc st r"
proof (induction L inc st r items rule: extend_ranges.induct)
  case (1 L inc st lo hi rest items)
  show ?case
  proof (cases "if inc then py_add1 L hi else Inr hi")
    case (Inl e)
    with "1.prems" show ?thesis by simp
  next
    case (Inr hi')
    show ?thesis
    proof (cases "np_arange L lo hi' st")
      case (Inl e)
      with Inr "1.prems" show ?thesis by simp
    next
      case inner: (Inr vs)
      with Inr "1.prems" have "extend_ranges L inc st rest (items @ vs) = (items1, None)" by simp
      from "1.IH" [OF Inr inner this]
      have "items1 = (items @ vs) @ generated L inc st rest" .
      moreover have "generated L inc st (lo # hi # rest) = vs @ generated L inc st rest"
        using Inr inner by (cases inc) (simp_all add: generated_def arange_values_def)
      ultimately show ?thesis by simp
    qed
  qed
qed (simp_all add: generated_def)

lemma handle_discrete_int_written:
  assumes "handle_discrete_int L p refs = (p', refs', Inr items)" and "k_dtype p = ''int''"
  shows "p' = p\<lparr>k_items := written_items L p\<rparr>"
proof (cases "int_step L p")
  case (Inl e)
  with assms show ?thesis by (simp add: handle_discrete_int_def)
next
  case (Inr st)
  show ?thesis
  proof (cases "k_range p")
    case None
    with Inr assms show ?thesis
      by (cases "k_items p")
         (auto simp: handle_discrete_int_def written_items_def Let_def split: sum.splits)
  next
    case (Some r)
    obtain items1 err where ext:
      "extend_ranges L True st r (case k_items p of None \<Rightarrow> [] | Some xs \<Rightarrow> xs) = (items1, err)"
      by (cases "extend_ranges L True st r (case k_items p of None \<Rightarrow> [] | Some xs \<Rightarrow> xs)") auto
    with Inr Some assms have err: "err = None"
      by (cases err) (simp_all add: handle_discrete_int_def Let_def)
    from extend_ranges_generated [OF ext [unfolded err]]
    have gen: "items1 = (case k_items p of None \<Rightarrow> [] | Some xs \<Rightarrow> xs) @ generated L True st r" .
    show ?thesis
    proof (cases "k_items p")
      case None
      with Inr Some assms ext err show ?thesis
        by (auto simp: handle_discrete_int_def written_items_def Let_def split: sum.splits)
    next
      case inner: (Some xs)
      with Inr Some assms ext err gen show ?thesis
        by (auto simp: handle_discrete_int_def written_items_def Let_def split: sum.splits)
    qed
  qed
qed

lemma handle_discrete_float_written:
  assumes "handle_discrete_float L p refs = (p', refs', Inr items)"
      and "k_dtype p \<noteq> ''int''" and "k_dtype p = ''float''"
  shows "p' = p\<lparr>k_items := written_items L p\<rparr>"
proof (cases "float_step L p")
  case (Inl e)
  with assms show ?thesis by (simp add: handle_discrete_float_def)
next
  case (Inr st)
  show ?thesis
  proof (cases "k_range p")
    case None
    with Inr assms show ?thesis
      by (cases "k_items p")
         (auto simp: handle_discrete_float_def written_items_def Let_def split: sum.splits)
  next
    case (Some r)
    obtain items1 err where ext:
      "extend_ranges L False st r (case k_items p of None \<Rightarrow> [] | Some xs \<Rightarrow> xs) = (items1, err)"
      by (cases "extend_ranges L False st r (case k_items p of None \<Rightarrow> [] | Some xs \<Rightarrow> xs)") auto
    with Inr Some assms have err: "err = None"
      by (cases err) (simp_all add: handle_discrete_float_def Let_def)
    from extend_ranges_generated [OF ext [unfolded err]]
    have gen: "items1 = (case k_items p of None \<Rightarrow> [] | Some xs \<Rightarrow> xs) @ generated L False st r" .
    show ?thesis
    proof (cases "k_items p")
      case None
      with Inr Some assms ext err show ?thesis
        by (auto simp: handle_discrete_float_def written_items_def Let_def split: sum.splits)
    next
      case inner: (Some xs)
      with Inr Some assms ext err gen show ?thesis
        by (auto simp: handle_discrete_float_def written_items_def Let_def split: sum.splits)
    qed
  qed
qed

lemma written_items_other:
  "k_dtype p \<noteq> ''int'' \<Longrightarrow> k_dtype p \<noteq> ''float'' \<Longrightarrow> written_items L p = k_items p"
  by (simp add: written_items_def split: option.splits)

lemma handle_discrete_data_written:
  assumes "handle_discrete_data L p refs = (p', refs', Inr items)"
  shows "p' = p\<lparr>k_items := written_items L p\<rparr>"
proof -
  consider (i) "k_dtype p = ''int''" | (f) "k_dtype p \<noteq> ''int''" "k_dtype p = ''float''"
    | (s) "k_dtype p \<noteq> ''int''" "k_dtype p \<noteq> ''float''" by blast
  then show ?thesis
  proof cases
    case i
    with assms have "handle_discrete_int L p refs = (p', refs', Inr items)"
      by (simp add: handle_discrete_data_def)
    then show ?thesis using i by (rule handle_discrete_int_written)
  next
    case f
    with assms have "handle_discrete_float L p refs = (p', refs', Inr items)"
      by (simp add: handle_discrete_data_def)
    then show ?thesis using f by (rule handle_discrete_float_written)
  next
    case s
    with assms have "p' = p"
      by (simp add: handle_discrete_data_def handle_discrete_string_def Let_def
               split: if_splits prod.splits)
    with s show ?thesis by (simp add: written_items_other)
  qed
qed


lemma coerce_bounds_written:
  assumes "coerce_bounds L p lo hi rv = (lo', hi', rv', None)"
  shows "Some [lo', hi'] = written_range L (p\<lparr>k_range := Some [lo, hi]\<rparr>)"
proof -
  consider (i) "k_dtype p = ''int''" | (f) "k_dtype p \<noteq> ''int''" "k_dtype p = ''float''"
    | (s) "k_dtype p \<noteq> ''int''" "k_dtype p \<noteq> ''float''" by blast
  then show ?thesis
  proof cases
    case i
    with assms show ?thesis
      by (auto simp: coerce_bounds_def coerce_int_def written_range_def coerced_int_def Let_def
               split: sum.splits)
  next
    case f
    with assms show ?thesis
      by (auto simp: coerce_bounds_def coerce_float_def written_range_def coerced_float_def Let_def
               split: sum.splits)
  next
    case s
    with assms show ?thesis
      by (simp add: coerce_bounds_def written_range_def)
  qed
qed

lemma build_continuous_written:
  assumes "build_continuous L p refs rv = (p', refs', rv', Inr d)"
  shows "p' = p\<lparr>k_range := written_range L p\<rparr>"
proof (cases "k_range p")
  case None
  with assms show ?thesis by (simp add: build_continuous_def)
next
  case (Some r)
  show ?thesis
  proof (cases "length r = 2")
    case False
    with Some assms show ?thesis by (simp add: build_continuous_def)
  next
    case True
    then obtain lo hi where r: "r = [lo, hi]"
      by (cases r; cases "tl r") auto
    obtain lo' hi' rv1 err where cb: "coerce_bounds L p lo hi rv = (lo', hi', rv1, err)"
      by (cases "coerce_bounds L p lo hi rv") auto
    from Some r assms cb have err: "err = None" and p': "p' = p\<lparr>k_range := Some [lo', hi']\<rparr>"
      by (auto simp: build_continuous_def Let_def split: option.splits sum.splits if_splits)
    have same: "p\<lparr>k_range := Some [lo, hi]\<rparr> = p" using Some r by simp
    from coerce_bounds_written [OF cb [unfolded err]] same
    have "Some [lo', hi'] = written_range L p" by simp
    with p' show ?thesis by simp
  qed
qed

lemma build_knob_written:
  assumes "build_knob L p refs rv = (p', refs', rv', Inr d)"
  shows "p' = written L p"
proof -
  consider (d) "k_type p = ''discrete''"
    | (c) "k_type p \<noteq> ''discrete''" "k_type p = ''continuous''"
    | (o) "k_type p \<noteq> ''discrete''" "k_type p \<noteq> ''continuous''" by blast
  then show ?thesis
  proof cases
    case d
    obtain p1 refs1 r1 where h: "handle_discrete_data L p refs = (p1, refs1, r1)"
      by (cases "handle_discrete_data L p refs") auto
    with d assms obtain items where "r1 = Inr items" "p1 = p'" "refs1 = refs'"
      by (cases r1) (simp_all add: build_knob_def)
    with h have "handle_discrete_data L p refs = (p', refs', Inr items)" by simp
    from handle_discrete_data_written [OF this] d show ?thesis by (simp add: written_def)
  next
    case c
    with assms have "build_continuous L p refs rv = (p', refs', rv', Inr d)"
      by (simp add: build_knob_def)
    from build_continuous_written [OF this] c show ?thesis by (simp add: written_def)
  next
    case o
    with assms show ?thesis by (simp add: build_knob_def)
  qed
qed

lemma build_space_loop_written:
  "build_space_loop L ks refs rv acc = (ks', refs', Inr dims) \<Longrightarrow> ks' = map (written L) ks"
proof (induction ks arbitrary: refs rv acc ks' refs')
  case Nil
  then show ?case by simp
next
  case (Cons p ps)
  obtain p' refs1 rv1 r1 where step: "build_knob L p refs rv = (p', refs1, rv1, r1)"
    by (cases "build_knob L p refs rv") auto
  show ?case
  proof (cases r1)
    case (Inl e)
    with Cons.prems step show ?thesis by simp
  next
    case (Inr d)
    obtain ps' refs2 r2 where rest: "build_space_loop L ps refs1 rv1 (acc @ [d]) = (ps', refs2, r2)"
      by (cases "build_space_loop L ps refs1 rv1 (acc @ [d])") auto
    with Cons.prems step Inr have eq: "ks' = p' # ps'" "r2 = Inr dims" by simp_all
    from step Inr have "p' = written L p" by (intro build_knob_written) simp
    moreover from rest eq(2) have "ps' = map (written L) ps" by (intro Cons.IH) simp
    ultimately show ?thesis using eq(1) by simp
  qed
qed

text \<open>
  C9 as the code has it. \<^verbatim>\<open>build_space\<close> keeps the number and order of the knobs
  and, in every knob, the name, type, dtype, options, step and ref, whether it raises
  or not; the range of a knob that is not continuous and the items of a knob that is
  not discrete are kept too, a range keeps its length and the old items stay a prefix
  of the new ones. It does write to the two list fields, and when it succeeds every
  knob is exactly \<open>written L\<close> of what it was: the range of a continuous knob of
  dtype int or float holds \<^verbatim>\<open>[int(low), int(high)]\<close> or
  \<^verbatim>\<open>[float(low), float(high)]\<close>, the items of a discrete knob of dtype int or float
  with items and a range hold the old items followed by the values \<^verbatim>\<open>np.arange\<close>
  generates for each pair of the range, and no other field differs. With the engines
  \<^verbatim>\<open>random\<close> and \<^verbatim>\<open>bayes\<close> nothing after \<^verbatim>\<open>build_space\<close> writes to a knob; the
  managers of the other engines receive the knob list itself and are not part of the
  source.
\<close>

theorem build_space_writes:
  "list_all2 descriptor_kept (knobs w) (knobs (snd (build_space L w))) \<and>
   (\<forall>dims. fst (build_space L w) = Inr dims \<longrightarrow>
      knobs (snd (build_space L w)) = map (written L) (knobs w)) \<and>
   (engine w = ''random'' \<or> engine w = ''bayes'' \<longrightarrow>
      knobs (worker (run L E H w)) = knobs (snd (build_space L w)))"
proof (intro conjI allI impI)
  obtain ks refs r where loop: "build_space_loop L (knobs w) (ref w) None [] = (ks, refs, r)"
    by (cases "build_space_loop L (knobs w) (ref w) None []") auto
  then have after: "knobs (snd (build_space L w)) = ks" and res: "fst (build_space L w) = r"
    by (simp_all add: build_space_def)
  from build_space_loop_kept [OF loop] after
  show "list_all2 descriptor_kept (knobs w) (knobs (snd (build_space L w)))" by simp
  show "knobs (snd (build_space L w)) = map (written L) (knobs w)"
    if "fst (build_space L w) = Inr dims" for dims
  proof -
    from that res have "r = Inr dims" by simp
    with loop have "build_space_loop L (knobs w) (ref w) None [] = (ks, refs, Inr dims)" by simp
    from build_space_loop_written [OF this] after show ?thesis by simp
  qed
  show "knobs (worker (run L E H w)) = knobs (snd (build_space L w))"
    by (rule run_worker_knobs)
qed

theorem build_space_writes_witness:
  "fst (build_space ideal_lib (init_optimizer [knob_level, knob_loose] ''random'' 3 None None None))
     = Inr [Candidates [VInt 1, VInt 2, VInt 3], Interval (VInt 0) (VInt 10)] \<and>
   map k_items (knobs (snd (build_space ideal_lib
       (init_optimizer [knob_level, knob_loose] ''random'' 3 None None None))))
     = [Some [VInt 1, VInt 1, VInt 2, VInt 3], None] \<and>
   map k_range (knobs (snd (build_space ideal_lib
       (init_optimizer [knob_level, knob_loose] ''random'' 3 None None None))))
     = [Some [VInt 1, VInt 3], Some [VInt 0, VInt 10]] \<and>
   knobs (worker (run ideal_lib demo_collab good_harness
       (init_optimizer [knob_level, knob_loose] ''random'' 3 None None None)))
     = knobs (snd (build_space ideal_lib
       (init_optimizer [knob_level, knob_loose] ''random'' 3 None None None)))"
proof -
  let ?w = "init_optimizer [knob_level, knob_loose] ''random'' 3 None None None :: rat optimizer"
  have ok: "fst (build_space ideal_lib ?w)
     = Inr [Candidates [VInt 1, VInt 2, VInt 3], Interval (VInt 0) (VInt 10)]" by code_simp
  have eng: "engine ?w = ''random'' \<or> engine ?w = ''bayes''" by (simp add: init_optimizer_def)
  have wi: "map k_items (map (written ideal_lib) (knobs ?w))
     = [Some [VInt 1, VInt 1, VInt 2, VInt 3], None]" by code_simp
  have wr: "map k_range (map (written ideal_lib) (knobs ?w))
     = [Some [VInt 1, VInt 3], Some [VInt 0, VInt 10]]" by code_simp
  from build_space_writes [of ?w ideal_lib demo_collab good_harness] ok eng
  have "knobs (snd (build_space ideal_lib ?w)) = map (written ideal_lib) (knobs ?w)"
    and "knobs (worker (run ideal_lib demo_collab good_harness ?w))
           = knobs (snd (build_space ideal_lib ?w))"
    by blast+
  with ok wi wr show ?thesis by simp
qed

text \<open>
  C9 as the claim states it fails: a discrete int knob with items \<open>[1]\<close> and range
  \<open>[1, 3]\<close> holds the items \<open>[1, 1, 2, 3]\<close> after \<^verbatim>\<open>build_space\<close>.
\<close>

theorem build_space_changes_items:
  "knobs (init_optimizer [knob_level] ''random'' 3 None None None) = [knob_level] \<and>
   k_items knob_level = Some [VInt 1] \<and>
   map k_items (knobs (snd (build_space ideal_lib
       (init_optimizer [knob_level] ''random'' 3 None None None))))
     = [Some [VInt 1, VInt 1, VInt 2, VInt 3]]"
  by code_simp


section \<open>Properties of the warm start\<close>

text \<open>
  C7. The claim is that a float value for a knob of dtype \<^verbatim>\<open>float\<close> is accepted.
  \<^verbatim>\<open>0.5\<close> is a float literal, and \<^verbatim>\<open>_get_intvalue_from_knobs\<close> passes it to
  \<^verbatim>\<open>int\<close>, as it does for every dtype other than \<^verbatim>\<open>string\<close>: the warm start fails
  with a value error.
\<close>

theorem get_intvalue_rejects_float_literal:
  "float_of_str ideal_lib ''0.5'' = Some (1 / 2) \<and>
   get_intvalue_from_knobs ideal_lib [knob_ratio] [''ratio'' \<mapsto> ''0.5'']
     = Inl (ValueError ''invalid literal for int() with base 10'') \<and>
   transfer ideal_lib (init_optimizer [knob_ratio] ''bayes'' 50
       (Some [[''ratio=0.5'']]) (Some [VFloat (3 / 2)]) None)
     = Inl (ValueError ''invalid literal for int() with base 10'')"
  by code_simp

lemma put_token_apply:
  "put_token tok kv n = (if token_name tok = n then Some (token_value tok) else kv n)"
  by (simp add: put_token_def)

lemma kv_of_tokens_fold:
  "list_all (\<lambda>tok. length (py_split CHR ''='' tok) = 2) entry \<Longrightarrow>
   kv_of_tokens entry kv = Inr (fold put_token entry kv)"
  by (induction entry arbitrary: kv) (simp_all add: Let_def put_token_def token_name_def token_value_def)

lemma fold_kv_absent:
  "filter (\<lambda>tok. token_name tok = n) entry = [] \<Longrightarrow>
   fold put_token entry kv n = kv n"
  by (induction entry arbitrary: kv) (simp_all add: put_token_apply split: if_splits)

lemma fold_kv_once:
  "length (filter (\<lambda>tok. token_name tok = n) entry) = 1 \<Longrightarrow>
   fold put_token entry kv n = Some (value_of entry n)"
proof (induction entry arbitrary: kv)
  case Nil
  then show ?case by simp
next
  case (Cons tok rest)
  show ?case
  proof (cases "token_name tok = n")
    case True
    with Cons.prems have none: "filter (\<lambda>tok. token_name tok = n) rest = []" by simp
    have "fold put_token rest (put_token tok kv) n = put_token tok kv n"
      using none by (rule fold_kv_absent)
    moreover have "put_token tok kv n = Some (token_value tok)"
      using True by (simp add: put_token_apply)
    ultimately show ?thesis using True by (simp add: value_of_def)
  next
    case False
    with Cons.prems have "length (filter (\<lambda>tok. token_name tok = n) rest) = 1" by simp
    from Cons.IH [OF this] False show ?thesis by (simp add: value_of_def)
  qed
qed

lemma append_matches_absent:
  "filter (\<lambda>opt. opt = v) opts = [] \<Longrightarrow> append_matches v k opts x_each = x_each"
  by (induction opts arbitrary: k x_each) (simp_all split: if_splits)

lemma append_matches_once:
  "length (filter (\<lambda>opt. opt = v) opts) = 1 \<Longrightarrow>
   append_matches v k opts x_each =
     x_each @ [VInt (int (k + length (takeWhile (\<lambda>opt. opt \<noteq> v) opts)))]"
proof (induction opts arbitrary: k x_each)
  case Nil
  then show ?case by simp
next
  case (Cons opt rest)
  show ?case
  proof (cases "opt = v")
    case True
    with Cons.prems have "filter (\<lambda>opt. opt = v) rest = []" by simp
    then have "append_matches v (Suc k) rest (x_each @ [VInt (int k)]) = x_each @ [VInt (int k)]"
      by (rule append_matches_absent)
    with True show ?thesis by simp
  next
    case False
    with Cons.prems have "length (filter (\<lambda>opt. opt = v) rest) = 1" by simp
    from Cons.IH [OF this, of "Suc k" x_each] False show ?thesis by simp
  qed
qed

lemma get_intvalue_loop_ok:
  "list_all (\<lambda>p. \<exists>v. kv (k_name p) = Some v \<and> value_ok L p v) ks \<Longrightarrow>
   get_intvalue_loop L ks kv x_each =
     Inr (x_each @ map (\<lambda>p. encode_value L p (the (kv (k_name p)))) ks)"
proof (induction ks arbitrary: x_each)
  case Nil
  then show ?case by simp
next
  case (Cons p ps)
  from Cons.prems obtain v where v: "kv (k_name p) = Some v" "value_ok L p v" by auto
  from Cons.prems have rest: "list_all (\<lambda>p. \<exists>v. kv (k_name p) = Some v \<and> value_ok L p v) ps"
    by simp
  show ?case
  proof (cases "k_dtype p \<noteq> ''string''")
    case True
    with v(2) obtain i where i: "int_of_str L v = Some i"
      by (auto simp: value_ok_def split: if_splits)
    with True v(1) Cons.IH [OF rest, of "x_each @ [VInt i]"] show ?thesis
      by (simp add: py_int_def encode_value_def)
  next
    case False
    with v(2) have "length (filter (\<lambda>opt. opt = v) (k_options p)) = 1"
      by (simp add: value_ok_def split: if_splits)
    from append_matches_once [OF this, of 0 x_each]
    have "append_matches v 0 (k_options p) x_each = x_each @ [encode_value L p v]"
      using False by (simp add: encode_value_def)
    with False v(1) Cons.IH [OF rest, of "x_each @ [encode_value L p v]"] show ?thesis
      by simp
  qed
qed

lemma entry_ok_encoded:
  assumes "entry_ok L ks entry"
  shows "\<exists>kv. kv_of_tokens entry Map.empty = Inr kv \<and>
           get_intvalue_from_knobs L ks kv = Inr (encode_entry L ks entry)"
proof -
  let ?kv = "fold put_token entry Map.empty"
  from assms have fmt: "list_all (\<lambda>tok. length (py_split CHR ''='' tok) = 2) entry"
    by (simp add: entry_ok_def)
  then have kv: "kv_of_tokens entry Map.empty = Inr ?kv" by (rule kv_of_tokens_fold)
  have look: "?kv (k_name p) = Some (value_of entry (k_name p)) \<and> value_ok L p (value_of entry (k_name p))"
    if "p \<in> set ks" for p
  proof -
    from assms that have once: "length (filter (\<lambda>tok. token_name tok = k_name p) entry) = 1"
      and ok: "value_ok L p (value_of entry (k_name p))"
      by (simp_all add: entry_ok_def list_all_iff)
    from fold_kv_once [OF once] ok show ?thesis by simp
  qed
  then have all: "list_all (\<lambda>p. \<exists>v. ?kv (k_name p) = Some v \<and> value_ok L p v) ks"
    by (simp add: list_all_iff)
  have "map (\<lambda>p. encode_value L p (the (?kv (k_name p)))) ks = encode_entry L ks entry"
    unfolding encode_entry_def using look by (intro map_cong refl) simp
  then have "get_intvalue_loop L ks ?kv [] = Inr (encode_entry L ks entry)"
    using get_intvalue_loop_ok [OF all, of "[]"] by (simp only: append_Nil)
  then have "get_intvalue_from_knobs L ks ?kv = Inr (encode_entry L ks entry)"
    by (simp only: get_intvalue_from_knobs_def)
  with kv show ?thesis by blast
qed

lemma transfer_loop_ok:
  "list_all (entry_ok L ks) xs \<Longrightarrow>
   transfer_loop L ks xs acc = Inr (acc @ map (encode_entry L ks) xs)"
proof (induction xs arbitrary: acc)
  case Nil
  then show ?case by simp
next
  case (Cons entry rest)
  from Cons.prems have ok: "entry_ok L ks entry" and rest: "list_all (entry_ok L ks) rest"
    by simp_all
  from entry_ok_encoded [OF ok] obtain kv where
    kv: "kv_of_tokens entry Map.empty = Inr kv"
        "get_intvalue_from_knobs L ks kv = Inr (encode_entry L ks entry)" by blast
  from ok have len: "length entry = length ks" by (simp add: entry_ok_def)
  have "length (encode_entry L ks entry) = length ks" by (simp add: encode_entry_def)
  with kv len Cons.IH [OF rest, of "acc @ [encode_entry L ks entry]"] show ?case by simp
qed


lemma kv_of_tokens_error:
  "kv_of_tokens entry kv = Inl e \<Longrightarrow> \<exists>m. e = ValueError m"
  by (induction entry arbitrary: kv) (auto simp: Let_def split: if_splits)

lemma get_intvalue_loop_error:
  "get_intvalue_loop L ks kv x_each = Inl e \<Longrightarrow> \<exists>m. e = ValueError m"
  by (induction ks arbitrary: x_each)
     (auto simp: py_int_def split: option.splits if_splits sum.splits)

lemma transfer_loop_error:
  "transfer_loop L ks xs acc = Inl e \<Longrightarrow> \<exists>m. e = ValueError m"
proof (induction xs arbitrary: acc)
  case Nil
  then show ?case by simp
next
  case (Cons entry rest)
  show ?case
  proof (cases "length entry \<noteq> length ks")
    case True
    with Cons.prems show ?thesis by auto
  next
    case len: False
    show ?thesis
    proof (cases "kv_of_tokens entry Map.empty")
      case (Inl e')
      with len Cons.prems have "e = e'" by simp
      with Inl kv_of_tokens_error show ?thesis by blast
    next
      case (Inr kv)
      show ?thesis
      proof (cases "get_intvalue_from_knobs L ks kv")
        case (Inl e')
        with len Inr Cons.prems have "e = e'" by simp
        with Inl get_intvalue_loop_error [of L ks kv "[]" e'] show ?thesis
          by (simp add: get_intvalue_from_knobs_def)
      next
        case inner: (Inr ref_x)
        show ?thesis
        proof (cases "length ref_x \<noteq> length ks")
          case True
          with len Inr inner Cons.prems show ?thesis by auto
        next
          case False
          with len Inr inner Cons.prems
          have "transfer_loop L ks rest (acc @ [ref_x]) = Inl e" by simp
          then show ?thesis by (rule Cons.IH)
        qed
      qed
    qed
  qed
qed

lemma transfer_loop_bad_length:
  "\<exists>entry \<in> set xs. length entry \<noteq> length ks \<Longrightarrow> \<exists>e. transfer_loop L ks xs acc = Inl e"
proof (induction xs arbitrary: acc)
  case Nil
  then show ?case by simp
next
  case (Cons entry rest)
  show ?case
  proof (cases "length entry \<noteq> length ks")
    case True
    then show ?thesis by simp
  next
    case len: False
    with Cons.prems have bad: "\<exists>entry \<in> set rest. length entry \<noteq> length ks" by simp
    show ?thesis
    proof (cases "kv_of_tokens entry Map.empty")
      case (Inl e')
      with len show ?thesis by simp
    next
      case (Inr kv)
      show ?thesis
      proof (cases "get_intvalue_from_knobs L ks kv")
        case (Inl e')
        with len Inr show ?thesis by simp
      next
        case inner: (Inr ref_x)
        show ?thesis
        proof (cases "length ref_x \<noteq> length ks")
          case True
          with len Inr inner show ?thesis by simp
        next
          case False
          from Cons.IH [OF bad, of "acc @ [ref_x]"] len Inr inner False show ?thesis by simp
        qed
      qed
    qed
  qed
qed

lemma float_list_ok:
  "list_all (\<lambda>y. \<exists>f. py_float L y = Inr f) ys \<Longrightarrow>
   \<exists>scores. float_list L ys = Inr scores \<and> map (py_float L) ys = map Inr scores"
proof (induction ys)
  case Nil
  then show ?case by simp
next
  case (Cons y ys)
  from Cons.prems obtain f where f: "py_float L y = Inr f" by auto
  from Cons.prems have "list_all (\<lambda>y. \<exists>f. py_float L y = Inr f) ys" by simp
  from Cons.IH [OF this] obtain fs where
    fs: "float_list L ys = Inr fs" "map (py_float L) ys = map Inr fs" by blast
  have "float_list L (y # ys) = Inr (f # fs) \<and> map (py_float L) (y # ys) = map Inr (f # fs)"
    using f fs by simp
  then show ?case by (rule exI)
qed

text \<open>
  C6 as the code has it. Without \<^verbatim>\<open>x0\<close> or without \<^verbatim>\<open>y0\<close>, \<^verbatim>\<open>transfer\<close>
  returns two empty lists and reads no entry. With both: if some entry's token count
  differs from the knob count, \<^verbatim>\<open>transfer\<close> fails with a value error; if every
  entry has one token per knob, every token has exactly two parts, every knob is named
  by exactly one token, the value named for a knob of dtype int is one that \<^verbatim>\<open>int\<close>
  reads and the value named for a knob of dtype string occurs exactly once among its
  options, and every score converts to float, then \<^verbatim>\<open>transfer\<close> succeeds and returns
  one vector per entry, whose components follow the order of the knobs and not the
  order of the tokens, and the converted scores. Knobs of dtype float are left out.
\<close>

theorem transfer_checks_entries:
  "(x0 w = None \<or> y0 w = None \<longrightarrow> transfer L w = Inr ([], [])) \<and>
   (x0 w = Some xs \<and> y0 w = Some ys \<longrightarrow>
      ((\<exists>entry \<in> set xs. length entry \<noteq> length (knobs w)) \<longrightarrow>
         (\<exists>m. transfer L w = Inl (ValueError m))) \<and>
      (list_all (entry_ok L (knobs w)) xs \<and> list_all (\<lambda>y. \<exists>f. py_float L y = Inr f) ys \<longrightarrow>
         (\<exists>scores. transfer L w = Inr (map (encode_entry L (knobs w)) xs, scores) \<and>
                   map (py_float L) ys = map Inr scores)))"
proof (intro conjI impI)
  assume "x0 w = None \<or> y0 w = None"
  then show "transfer L w = Inr ([], [])"
    by (auto simp: transfer_def split: option.splits)
next
  assume xy: "x0 w = Some xs \<and> y0 w = Some ys"
    and "\<exists>entry \<in> set xs. length entry \<noteq> length (knobs w)"
  from transfer_loop_bad_length [OF this(2), of L "[]"]
  obtain e where e: "transfer_loop L (knobs w) xs [] = Inl e" ..
  from transfer_loop_error [OF e] obtain m where "e = ValueError m" ..
  with e xy have "transfer L w = Inl (ValueError m)" by (simp add: transfer_def)
  then show "\<exists>m. transfer L w = Inl (ValueError m)" by (rule exI)
next
  assume xy: "x0 w = Some xs \<and> y0 w = Some ys"
    and ok: "list_all (entry_ok L (knobs w)) xs \<and> list_all (\<lambda>y. \<exists>f. py_float L y = Inr f) ys"
  from ok have "transfer_loop L (knobs w) xs [] = Inr ([] @ map (encode_entry L (knobs w)) xs)"
    by (intro transfer_loop_ok) simp
  then have loop: "transfer_loop L (knobs w) xs [] = Inr (map (encode_entry L (knobs w)) xs)"
    by simp
  from ok have "list_all (\<lambda>y. \<exists>f. py_float L y = Inr f) ys" by simp
  from float_list_ok [OF this] obtain scores where
    sc: "float_list L ys = Inr scores" "map (py_float L) ys = map Inr scores" by blast
  from loop sc(1) xy
  have "transfer L w = Inr (map (encode_entry L (knobs w)) xs, scores)"
    by (simp add: transfer_def)
  with sc(2) show "\<exists>scores. transfer L w = Inr (map (encode_entry L (knobs w)) xs, scores) \<and>
                      map (py_float L) ys = map Inr scores" by blast
qed

theorem transfer_checks_entries_witness:
  "transfer ideal_lib (init_optimizer [knob_x, knob_mode] ''bayes'' 50
       (Some [[''mode=c'', ''x=5''], [''x=7'', ''mode=a'']]) (Some [VFloat (3 / 2), VInt 2]) None)
     = Inr ([[VInt 5, VInt 2], [VInt 7, VInt 0]], [3 / 2, 2]) \<and>
   transfer ideal_lib (init_optimizer [knob_x] ''bayes'' 50
       (Some [[''x=5'', ''y=1'']]) (Some [VFloat (3 / 2)]) None)
     = Inl (ValueError ''x0 is not the same length with knobs'') \<and>
   transfer ideal_lib (init_optimizer [knob_x] ''bayes'' 50 None (Some [VFloat (3 / 2)]) None)
     = Inr ([], [])"
proof -
  let ?good = "init_optimizer [knob_x, knob_mode] ''bayes'' 50
       (Some [[''mode=c'', ''x=5''], [''x=7'', ''mode=a'']]) (Some [VFloat (3 / 2), VInt 2]) None"
  let ?bad = "init_optimizer [knob_x] ''bayes'' 50
       (Some [[''x=5'', ''y=1'']]) (Some [VFloat (3 / 2)]) None"
  let ?none = "init_optimizer [knob_x] ''bayes'' 50 None (Some [VFloat (3 / 2)]) None"
  have gxy: "x0 ?good = Some [[''mode=c'', ''x=5''], [''x=7'', ''mode=a'']] \<and>
             y0 ?good = Some [VFloat (3 / 2), VInt 2]"
    and bxy: "x0 ?bad = Some [[''x=5'', ''y=1'']] \<and> y0 ?bad = Some [VFloat (3 / 2)]"
    and nxy: "x0 ?none = None \<or> y0 ?none = None"
    by (simp_all add: init_optimizer_def)
  have ok: "list_all (entry_ok ideal_lib (knobs ?good))
              [[''mode=c'', ''x=5''], [''x=7'', ''mode=a'']]"
    by code_simp
  have e1: "py_float ideal_lib (VFloat (3 / 2)) = Inr (3 / 2)"
    and e2: "py_float ideal_lib (VInt 2) = Inr 2"
    by (simp_all add: py_float_def ideal_lib_def)
  have fl: "list_all (\<lambda>y. \<exists>f. py_float ideal_lib y = Inr f) [VFloat (3 / 2), VInt 2]"
    unfolding list_all_iff
  proof
    fix y :: "rat pyval"
    assume "y \<in> set [VFloat (3 / 2), VInt 2]"
    then consider "y = VFloat (3 / 2)" | "y = VInt 2" by auto
    then show "\<exists>f. py_float ideal_lib y = Inr f"
    proof cases
      case 1
      show ?thesis unfolding 1 by (rule exI, rule e1)
    next
      case 2
      show ?thesis unfolding 2 by (rule exI, rule e2)
    qed
  qed
  have bad: "\<exists>entry \<in> set [[''x=5'', ''y=1'']]. length entry \<noteq> length (knobs ?bad)"
    by (simp add: init_optimizer_def)
  have g: "transfer ideal_lib ?good = Inr ([[VInt 5, VInt 2], [VInt 7, VInt 0]], [3 / 2, 2])"
    by code_simp
  have b: "transfer ideal_lib ?bad = Inl (ValueError ''x0 is not the same length with knobs'')"
    by code_simp
  have n: "transfer ideal_lib ?none = Inr ([], [])" by code_simp
  show ?thesis
    using g b n gxy bxy nxy ok fl bad
      transfer_checks_entries [of ?good ideal_lib
         "[[''mode=c'', ''x=5''], [''x=7'', ''mode=a'']]" "[VFloat (3 / 2), VInt 2]"]
      transfer_checks_entries [of ?bad ideal_lib "[[''x=5'', ''y=1'']]" "[VFloat (3 / 2)]"]
      transfer_checks_entries [of ?none ideal_lib "[]" "[]"]
    by simp
qed

text \<open>
  C6 as the claim states it fails twice: without \<^verbatim>\<open>y0\<close> an entry of two tokens for
  one knob raises nothing, and an entry that names the one knob once is rejected when
  its value is not a number.
\<close>

theorem transfer_guard_and_values:
  "length [''x=5'', ''y=1''] \<noteq> length [knob_x] \<and>
   transfer ideal_lib (init_optimizer [knob_x] ''bayes'' 50
       (Some [[''x=5'', ''y=1'']]) None None)
     = Inr ([], []) \<and>
   length [''x=abc''] = length [knob_x] \<and>
   length (filter (\<lambda>tok. token_name tok = k_name knob_x) [''x=abc'']) = 1 \<and>
   transfer ideal_lib (init_optimizer [knob_x] ''bayes'' 50
       (Some [[''x=abc'']]) (Some [VFloat (3 / 2)]) None)
     = Inl (ValueError ''invalid literal for int() with base 10'')"
  by code_simp


section \<open>Properties of the run\<close>

lemma build_space_fields:
  "n_random_starts (snd (build_space L w)) = n_random_starts w"
  "engine (snd (build_space L w)) = engine w"
  "max_eval (snd (build_space L w)) = max_eval w"
  by (simp_all add: build_space_def split: prod.splits)

lemma prepare_result:
  assumes "prepare L w = (Inr (space, ref_x, ref_y), w')"
  shows "\<exists>xs ys. fst (build_space L w) = Inr space \<and>
           transfer L (snd (build_space L w)) = Inr (xs, ys) \<and>
           ref_x = (if xs = [] then [ref (snd (build_space L w))] else xs) \<and>
           ref_y = (if xs = [] then None else Some ys) \<and>
           w' = (snd (build_space L w))
                  \<lparr>n_random_starts := adjust_random_starts (n_random_starts w) (length ref_x)\<rparr>"
proof (cases "build_space L w")
  case (Pair r w1)
  show ?thesis
  proof (cases r)
    case (Inl e)
    with Pair assms show ?thesis by (simp add: prepare_def)
  next
    case (Inr sp)
    show ?thesis
    proof (cases "transfer L w1")
      case (Inl e)
      with Pair Inr assms show ?thesis by (simp add: prepare_def)
    next
      case inner: (Inr xy)
      obtain xs ys where xy: "xy = (xs, ys)" by (cases xy) auto
      have n: "n_random_starts w1 = n_random_starts w"
        using build_space_fields(1) [of L w] Pair by simp
      from Pair Inr inner xy assms n show ?thesis
        by (auto simp: prepare_def Let_def split: if_splits)
    qed
  qed
qed

text \<open>
  C3 as the code has it. When the preparation succeeds, the warm-start vectors
  \<open>ref_x\<close> are the vectors of \<^verbatim>\<open>transfer\<close> if there are any (with their scores) and
  otherwise the single reference vector (without scores). With \<open>k\<close> such vectors and
  the configured random-start count \<open>n\<close>, the new count is 0 if \<open>n \<le> k\<close> and
  \<open>n - k + 1\<close> otherwise; it is never negative. With the engine \<^verbatim>\<open>bayes\<close>, the run
  is the one that drives \<^verbatim>\<open>gp_minimize\<close> called with this count, these vectors and
  these scores.
\<close>

theorem prepare_random_starts:
  assumes "prepare L w = (Inr (space, ref_x, ref_y), w')"
  shows "n_random_starts w' =
           (if n_random_starts w \<le> int (length ref_x) then 0
            else n_random_starts w - int (length ref_x) + 1) \<and>
         0 \<le> n_random_starts w' \<and>
         (\<exists>xs ys. transfer L (snd (build_space L w)) = Inr (xs, ys) \<and>
            ref_x = (if xs = [] then [ref (snd (build_space L w))] else xs) \<and>
            ref_y = (if xs = [] then None else Some ys)) \<and>
         (engine w = ''bayes'' \<longrightarrow>
            run L E H w =
              (case drive L (knobs w') H
                      (gp_minimize E space (max_eval w)
                         (if n_random_starts w \<le> int (length ref_x) then 0
                          else n_random_starts w - int (length ref_x) + 1) ref_x ref_y)
                      \<lparr>params = [], options = [], performance = [], trace = []\<rparr> of
                 (Inl e, st) \<Rightarrow> handle_exn e st w'
               | (Inr x, st) \<Rightarrow> finish E w' (Ret x) st))"
proof -
  let ?n = "if n_random_starts w \<le> int (length ref_x) then 0
            else n_random_starts w - int (length ref_x) + 1"
  let ?st0 = "\<lparr>params = [], options = [], performance = [], trace = []\<rparr> :: 'a locals"
  from prepare_result [OF assms] obtain xs ys where
    tr: "transfer L (snd (build_space L w)) = Inr (xs, ys)"
    and rx: "ref_x = (if xs = [] then [ref (snd (build_space L w))] else xs)"
    and ry: "ref_y = (if xs = [] then None else Some ys)"
    and w': "w' = (snd (build_space L w))
                  \<lparr>n_random_starts := adjust_random_starts (n_random_starts w) (length ref_x)\<rparr>"
    by blast
  have count: "n_random_starts w' = ?n"
    unfolding w' by (simp add: adjust_random_starts_def)
  have nonneg: "0 \<le> n_random_starts w'" unfolding count by simp
  have eng: "engine w' = engine w" and me: "max_eval w' = max_eval w"
    unfolding w' by (simp_all add: build_space_fields)
  have third: "\<exists>xs ys. transfer L (snd (build_space L w)) = Inr (xs, ys) \<and>
            ref_x = (if xs = [] then [ref (snd (build_space L w))] else xs) \<and>
            ref_y = (if xs = [] then None else Some ys)"
    using tr rx ry by blast
  have fourth: "run L E H w =
              (case drive L (knobs w') H (gp_minimize E space (max_eval w) ?n ref_x ref_y) ?st0 of
                 (Inl e, st) \<Rightarrow> handle_exn e st w'
               | (Inr x, st) \<Rightarrow> finish E w' (Ret x) st)"
    if bayes: "engine w = ''bayes''"
  proof -
    let ?plan = "gp_minimize E space (max_eval w) ?n ref_x ref_y"
    have s: "search L E H w' space ref_x ref_y ?st0 =
           (case drive L (knobs w') H ?plan ?st0 of
              (Inl e, st') \<Rightarrow> (Inl e, st')
            | (Inr x, st') \<Rightarrow> (Inr (Ret x), st'))"
      using bayes eng me count by (simp add: search_def)
    obtain dres st where d: "drive L (knobs w') H ?plan ?st0 = (dres, st)"
      by (cases "drive L (knobs w') H ?plan ?st0") auto
    show ?thesis
    proof (cases dres)
      case (Inl e)
      with s d assms show ?thesis by (simp add: run_def)
    next
      case (Inr x)
      with s d assms show ?thesis by (simp add: run_def)
    qed
  qed
  from count nonneg third fourth show ?thesis by blast
qed


theorem prepare_random_starts_witness:
  "engine (init_optimizer [knob_x] ''bayes'' 50 (Some [[''x=5''], [''x=7'']])
             (Some [VFloat (3 / 2), VFloat 2]) (Some 20)) = ''bayes'' \<and>
   fst (prepare ideal_lib
      (init_optimizer [knob_x] ''bayes'' 50 (Some [[''x=5''], [''x=7'']])
         (Some [VFloat (3 / 2), VFloat 2]) (Some 20)))
     = Inr ([Interval (VInt 0) (VInt 10)], [[VInt 5], [VInt 7]], Some [3 / 2, 2]) \<and>
   n_random_starts (snd (prepare ideal_lib
      (init_optimizer [knob_x] ''bayes'' 50 (Some [[''x=5''], [''x=7'']])
         (Some [VFloat (3 / 2), VFloat 2]) (Some 20)))) = 19 \<and>
   fst (prepare ideal_lib (init_optimizer [knob_x] ''bayes'' 50 None None (Some 20)))
     = Inr ([Interval (VInt 0) (VInt 10)], [[VInt 5]], None) \<and>
   n_random_starts (snd (prepare ideal_lib
      (init_optimizer [knob_x] ''bayes'' 50 None None (Some 20)))) = 20"
proof -
  let ?w1 = "init_optimizer [knob_x] ''bayes'' 50 (Some [[''x=5''], [''x=7'']])
               (Some [VFloat (3 / 2), VFloat 2]) (Some 20) :: rat optimizer"
  let ?w2 = "init_optimizer [knob_x] ''bayes'' 50 None None (Some 20) :: rat optimizer"
  have f1: "fst (prepare ideal_lib ?w1)
     = Inr ([Interval (VInt 0) (VInt 10)], [[VInt 5], [VInt 7]], Some [3 / 2, 2])" by code_simp
  have f2: "fst (prepare ideal_lib ?w2)
     = Inr ([Interval (VInt 0) (VInt 10)], [[VInt 5]], None)" by code_simp
  have h1: "prepare ideal_lib ?w1
     = (Inr ([Interval (VInt 0) (VInt 10)], [[VInt 5], [VInt 7]], Some [3 / 2, 2]),
        snd (prepare ideal_lib ?w1))"
    using f1 by (cases "prepare ideal_lib ?w1") simp
  have h2: "prepare ideal_lib ?w2
     = (Inr ([Interval (VInt 0) (VInt 10)], [[VInt 5]], None), snd (prepare ideal_lib ?w2))"
    using f2 by (cases "prepare ideal_lib ?w2") simp
  have n: "n_random_starts ?w1 = 20" "n_random_starts ?w2 = 20" "engine ?w1 = ''bayes''"
    by (simp_all add: init_optimizer_def)
  from prepare_random_starts [OF h1, of demo_collab good_harness]
  have c1: "n_random_starts (snd (prepare ideal_lib ?w1)) =
           (if n_random_starts ?w1 \<le> int (length [[VInt 5 :: rat pyval], [VInt 7]]) then 0
            else n_random_starts ?w1 - int (length [[VInt 5 :: rat pyval], [VInt 7]]) + 1)"
    by (rule conjunct1)
  from prepare_random_starts [OF h2, of demo_collab good_harness]
  have c2: "n_random_starts (snd (prepare ideal_lib ?w2)) =
           (if n_random_starts ?w2 \<le> int (length [[VInt 5 :: rat pyval]]) then 0
            else n_random_starts ?w2 - int (length [[VInt 5 :: rat pyval]]) + 1)"
    by (rule conjunct1)
  from c1 c2 n f1 f2 show ?thesis by simp
qed


text \<open>
  C3 as the claim states it fails: with one warm-start vector and a configured count
  of 20 the new count is 20, not 19.
\<close>

theorem prepare_random_starts_not_difference:
  "fst (prepare ideal_lib
      (init_optimizer [knob_x] ''bayes'' 50 (Some [[''x=5'']]) (Some [VFloat (3 / 2)]) (Some 20)))
     = Inr ([Interval (VInt 0) (VInt 10)], [[VInt 5]], Some [3 / 2]) \<and>
   n_random_starts (snd (prepare ideal_lib
      (init_optimizer [knob_x] ''bayes'' 50 (Some [[''x=5'']]) (Some [VFloat (3 / 2)]) (Some 20))))
     = 20 \<and>
   n_random_starts (snd (prepare ideal_lib
      (init_optimizer [knob_x] ''bayes'' 50 (Some [[''x=5'']]) (Some [VFloat (3 / 2)]) (Some 20))))
     \<noteq> 20 - int (length [[VInt 5 :: rat pyval]])"
  by code_simp

lemma is_exchange_simps [simp]:
  "is_exchange (Received r)"
  "is_exchange (Sent (Dict [(''param'', FParams ps)]))"
  "\<not> is_exchange (Sent (ExcObj e))"
  "\<not> is_exchange (Sent (UnexpectedObj e))"
  by (simp_all add: is_exchange_def)

lemma sum_values_error:
  "sum_values L vs x = Inl e \<Longrightarrow> \<exists>m. e = ValueError m"
  by (induction vs arbitrary: x) (auto simp: py_float_def split: sum.splits option.splits)

lemma sum_values_malformed:
  "list_ex (\<lambda>v. float_of_str L v = None) vs \<Longrightarrow> \<exists>m. sum_values L vs x = Inl (ValueError m)"
  by (induction vs arbitrary: x) (auto simp: py_float_def split: sum.splits option.splits)


lemma objective_cases:
  assumes "objective L ks H var st = (res, st')"
  shows "(\<exists>e. res = Inl e \<and> trace st' = trace st) \<or>
     (\<exists>ps result.
        trace st' = trace st @ [Sent (Dict [(''param'', FParams ps)]), Received result] \<and>
        sum_values L (py_split CHR '','' result) (float_zero L) = res)"
proof (cases "decode_loop ks 0 var (params st)")
  case (Pair ps err)
  show ?thesis
  proof (cases err)
    case (Some e)
    with Pair assms have "res = Inl e \<and> trace st' = trace st"
      by (auto simp: objective_def)
    then show ?thesis by blast
  next
    case None
    let ?result = "H (trace st @ [Sent (Dict [(''param'', FParams ps)])])"
    have "trace st' = trace st @ [Sent (Dict [(''param'', FParams ps)]), Received ?result] \<and>
          sum_values L (py_split CHR '','' ?result) (float_zero L) = res"
    proof (cases "sum_values L (py_split CHR '','' ?result) (float_zero L)")
      case (Inl e)
      with Pair None assms show ?thesis by (auto simp: objective_def Let_def)
    next
      case (Inr x)
      with Pair None assms show ?thesis by (auto simp: objective_def Let_def)
    qed
    then show ?thesis by blast
  qed
qed

lemma objective_trace:
  assumes obj: "objective L ks H var st = (res, st')"
      and ex: "list_all is_exchange (trace st)"
      and ok: "\<forall>r. Received r \<in> set (trace st) \<longrightarrow> \<not> malformed L r"
  shows "list_all is_exchange (trace st') \<and>
         (case res of
            Inl e \<Rightarrow> (\<exists>r. Received r \<in> set (trace st') \<and> malformed L r) \<longrightarrow> (\<exists>m. e = ValueError m)
          | Inr y \<Rightarrow> (\<forall>r. Received r \<in> set (trace st') \<longrightarrow> \<not> malformed L r))"
proof -
  from objective_cases [OF obj] consider
      (early) e where "res = Inl e" "trace st' = trace st"
    | (asked) ps result where
        "trace st' = trace st @ [Sent (Dict [(''param'', FParams ps)]), Received result]"
        "sum_values L (py_split CHR '','' result) (float_zero L) = res"
    by blast
  then show ?thesis
  proof cases
    case early
    have "list_all is_exchange (trace st')" using ex early(2) by simp
    moreover have "(\<exists>r. Received r \<in> set (trace st') \<and> malformed L r) \<longrightarrow> (\<exists>m. e = ValueError m)"
      unfolding early(2) using ok by blast
    ultimately show ?thesis unfolding early(1) by simp
  next
    case asked
    have exch: "list_all is_exchange (trace st')"
      unfolding asked(1) using ex by simp
    have recv: "Received r \<in> set (trace st') \<longleftrightarrow> Received r \<in> set (trace st) \<or> r = result" for r
      unfolding asked(1) by auto
    show ?thesis
    proof (cases res)
      case (Inl e)
      from asked(2) have "sum_values L (py_split CHR '','' result) (float_zero L) = Inl e"
        unfolding Inl .
      from sum_values_error [OF this] obtain m where "e = ValueError m" ..
      with exch show ?thesis unfolding Inl by simp
    next
      case (Inr y)
      have "\<not> malformed L result"
      proof
        assume "malformed L result"
        then have "list_ex (\<lambda>v. float_of_str L v = None) (py_split CHR '','' result)"
          unfolding malformed_def .
        from sum_values_malformed [OF this, of "float_zero L"]
        obtain m where "sum_values L (py_split CHR '','' result) (float_zero L) = Inl (ValueError m)" ..
        with asked(2) Inr show False by simp
      qed
      with ok recv have "\<forall>r. Received r \<in> set (trace st') \<longrightarrow> \<not> malformed L r" by blast
      with exch show ?thesis unfolding Inr by simp
    qed
  qed
qed

lemma drive_trace:
  "drive L ks H plan st = (res, st') \<Longrightarrow>
   list_all is_exchange (trace st) \<Longrightarrow>
   \<forall>r. Received r \<in> set (trace st) \<longrightarrow> \<not> malformed L r \<Longrightarrow>
   list_all is_exchange (trace st') \<and>
   (case res of
      Inl e \<Rightarrow> (\<exists>r. Received r \<in> set (trace st') \<and> malformed L r) \<longrightarrow> (\<exists>m. e = ValueError m)
    | Inr y \<Rightarrow> (\<forall>r. Received r \<in> set (trace st') \<longrightarrow> \<not> malformed L r))"
proof (induction plan arbitrary: st)
  case (Eval var k)
  obtain r1 st1 where obj: "objective L ks H var st = (r1, st1)"
    by (cases "objective L ks H var st") auto
  note inv = objective_trace [OF obj Eval.prems(2) Eval.prems(3)]
  show ?case
  proof (cases r1)
    case (Inl e)
    with obj Eval.prems(1) have eq: "res = Inl e" "st' = st1" by simp_all
    from inv have "list_all is_exchange (trace st1)" by (rule conjunct1)
    moreover from inv have "(\<exists>r. Received r \<in> set (trace st1) \<and> malformed L r) \<longrightarrow> (\<exists>m. e = ValueError m)"
      unfolding Inl by simp
    ultimately show ?thesis unfolding eq by simp
  next
    case (Inr y)
    with obj Eval.prems(1) have run: "drive L ks H (k y) st1 = (res, st')" by simp
    from inv have clean1: "list_all is_exchange (trace st1)" by (rule conjunct1)
    from inv have clean2: "\<forall>r. Received r \<in> set (trace st1) \<longrightarrow> \<not> malformed L r"
      unfolding Inr by simp
    have "k y \<in> range k" by (rule rangeI)
    from Eval.IH [OF this run clean1 clean2] show ?thesis .
  qed
next
  case (Return x)
  from Return.prems(1) have eq: "res = Inr x" "st' = st" by simp_all
  show ?case unfolding eq using Return.prems(2) Return.prems(3) by simp
next
  case (Fail e)
  from Fail.prems(1) have eq: "res = Inl e" "st' = st" by simp_all
  have "(\<exists>r. Received r \<in> set (trace st) \<and> malformed L r) \<longrightarrow> (\<exists>m. e = ValueError m)"
    using Fail.prems(3) by blast
  then show ?case unfolding eq using Fail.prems(2) by simp
qed


text \<open>
  C8 as the code has it, for the engines whose objective is the one of this file
  (\<^verbatim>\<open>random\<close> and \<^verbatim>\<open>bayes\<close>). When the harness answers with a response of which
  some part is not a number, \<^verbatim>\<open>float\<close> raises \<^verbatim>\<open>ValueError\<close>, which the first
  \<^verbatim>\<open>except\<close> clause of \<^verbatim>\<open>run\<close> catches: the value error itself is the one error
  message on the channel, after the exchanges made so far, and the run returns
  \<^verbatim>\<open>None\<close> without ranking and without a final result.
\<close>

theorem malformed_result_is_value_error:
  assumes eng: "engine w = ''random'' \<or> engine w = ''bayes''"
      and recv: "Received r \<in> set (channel (run L E H w))"
      and bad: "malformed L r"
  shows "\<exists>m evs. channel (run L E H w) = evs @ [Sent (ExcObj (ValueError m))] \<and>
           list_all is_exchange evs \<and>
           outcome (run L E H w) = Returned None \<and>
           rank_calls (run L E H w) = 0"
proof -
  let ?st0 = "\<lparr>params = [], options = [], performance = [], trace = []\<rparr> :: 'a locals"
  have clean0: "list_all is_exchange (trace ?st0)"
    "\<forall>r. Received r \<in> set (trace ?st0) \<longrightarrow> \<not> malformed L r" by simp_all
  have driven: "\<exists>plan. search L E H w1 sp rx ry ?st0 =
           (case drive L (knobs w1) H plan ?st0 of
              (Inl e, st') \<Rightarrow> (Inl e, st')
            | (Inr x, st') \<Rightarrow> (Inr (Ret x), st'))"
    if "prepare L w = (Inr (sp, rx, ry), w1)" for sp rx ry w1
  proof -
    from that have "engine w1 = engine w" by (rule prepare_engine)
    with eng have "engine w1 = ''random'' \<or> engine w1 = ''bayes''" by simp
    then show ?thesis by (rule search_minimizer)
  qed
  show ?thesis
  proof (cases rule: run_cases [where L = L and w = w and E = E and H = H])
    case (not_prepared e w1)
    with recv show ?thesis by (simp add: handle_exn_def)
  next
    case (failed sp rx ry w1 e st)
    from driven [OF failed(1)] obtain plan where
      s: "search L E H w1 sp rx ry ?st0 =
           (case drive L (knobs w1) H plan ?st0 of
              (Inl e, st') \<Rightarrow> (Inl e, st')
            | (Inr x, st') \<Rightarrow> (Inr (Ret x), st'))" ..
    obtain dres st1 where d: "drive L (knobs w1) H plan ?st0 = (dres, st1)"
      by (cases "drive L (knobs w1) H plan ?st0") auto
    from s d failed(2) have dres: "dres = Inl e" and st: "st1 = st"
      by (cases dres; simp)+
    note inv = drive_trace [OF d clean0]
    from inv have exch: "list_all is_exchange (trace st)" unfolding st by (rule conjunct1)
    from inv have imp: "(\<exists>r. Received r \<in> set (trace st) \<and> malformed L r) \<longrightarrow> (\<exists>m. e = ValueError m)"
      unfolding dres st by simp
    from recv failed(3) have "Received r \<in> set (trace st)" by (simp add: handle_exn_def)
    with bad imp obtain m where m: "e = ValueError m" by blast
    have "channel (run L E H w) = trace st @ [Sent (ExcObj (ValueError m))]"
      unfolding failed(3) m by (simp add: handle_exn_def error_message_def)
    moreover have "outcome (run L E H w) = Returned None" "rank_calls (run L E H w) = 0"
      unfolding failed(3) by (simp_all add: handle_exn_def)
    ultimately show ?thesis using exch by blast
  next
    case (tpe sp rx ry w1 best st)
    from driven [OF tpe(1)] obtain plan where
      s: "search L E H w1 sp rx ry ?st0 =
           (case drive L (knobs w1) H plan ?st0 of
              (Inl e, st') \<Rightarrow> (Inl e, st')
            | (Inr x, st') \<Rightarrow> (Inr (Ret x), st'))" ..
    obtain dres st1 where d: "drive L (knobs w1) H plan ?st0 = (dres, st1)"
      by (cases "drive L (knobs w1) H plan ?st0") auto
    from s d tpe(2) have False by (cases dres) simp_all
    then show ?thesis ..
  next
    case (ranked sp rx ry w1 r' st)
    from driven [OF ranked(1)] obtain plan where
      s: "search L E H w1 sp rx ry ?st0 =
           (case drive L (knobs w1) H plan ?st0 of
              (Inl e, st') \<Rightarrow> (Inl e, st')
            | (Inr x, st') \<Rightarrow> (Inr (Ret x), st'))" ..
    obtain dres st1 where d: "drive L (knobs w1) H plan ?st0 = (dres, st1)"
      by (cases "drive L (knobs w1) H plan ?st0") auto
    from s d ranked(2) obtain x where dres: "dres = Inr x" and st: "st1 = st"
      by (cases dres) simp_all
    note inv = drive_trace [OF d clean0]
    from inv have none: "\<forall>r. Received r \<in> set (trace st) \<longrightarrow> \<not> malformed L r"
      unfolding dres st by simp
    from finish_cases [of E w1 r' st] recv ranked(4)
    have "Received r \<in> set (trace st)" by auto
    with none bad have False by blast
    then show ?thesis ..
  qed
qed

theorem malformed_result_is_value_error_witness:
  "engine (init_optimizer [knob_x] ''random'' 3 None None None) = ''random'' \<and>
   malformed ideal_lib ''1.5,abc'' \<and>
   channel (run ideal_lib demo_collab bad_harness
       (init_optimizer [knob_x] ''random'' 3 None None None))
     = [Sent (Dict [(''param'', FParams [(''x'', VInt 3)])]), Received ''1.5,abc'',
        Sent (ExcObj (ValueError ''could not convert string to float''))] \<and>
   outcome (run ideal_lib demo_collab bad_harness
       (init_optimizer [knob_x] ''random'' 3 None None None)) = Returned None"
proof -
  let ?w = "init_optimizer [knob_x] ''random'' 3 None None None :: rat optimizer"
  have eng: "engine ?w = ''random'' \<or> engine ?w = ''bayes''"
    by (simp add: init_optimizer_def)
  have bad: "malformed ideal_lib ''1.5,abc''" by code_simp
  have ch: "channel (run ideal_lib demo_collab bad_harness ?w)
     = [Sent (Dict [(''param'', FParams [(''x'', VInt 3)])]), Received ''1.5,abc'',
        Sent (ExcObj (ValueError ''could not convert string to float''))]" by code_simp
  have out: "outcome (run ideal_lib demo_collab bad_harness ?w) = Returned None" by code_simp
  have recv: "Received ''1.5,abc'' \<in> set (channel (run ideal_lib demo_collab bad_harness ?w))"
    unfolding ch by simp
  show ?thesis
    using bad ch out malformed_result_is_value_error [OF eng recv bad]
    by (simp add: init_optimizer_def)
qed

text \<open>
  C8 as the claim states it fails: the error sent is the value error, not the wrapped
  unexpected error.
\<close>

theorem malformed_result_not_unexpected:
  "malformed ideal_lib ''1.5,abc'' \<and>
   last (channel (run ideal_lib demo_collab bad_harness
       (init_optimizer [knob_x] ''random'' 3 None None None)))
     = Sent (ExcObj (ValueError ''could not convert string to float'')) \<and>
   last (channel (run ideal_lib demo_collab bad_harness
       (init_optimizer [knob_x] ''random'' 3 None None None)))
     \<noteq> Sent (UnexpectedObj (ValueError ''could not convert string to float''))"
  by code_simp

text \<open>
  What a run that returns a configuration has sent last: for tpe the dict with
  \<^verbatim>\<open>finished\<close> and \<^verbatim>\<open>param\<close> and no ranking, for the other engines the dict with
  \<^verbatim>\<open>param\<close>, \<^verbatim>\<open>rank\<close> and \<^verbatim>\<open>finished\<close> after one call of the feature selector.
\<close>

lemma completed_run_final_message:
  assumes completed: "outcome (run L E H w) = Returned (Some ps)"
  shows "(engine w = ''tpe'' \<longrightarrow>
            channel (run L E H w) \<noteq> [] \<and>
            last (channel (run L E H w)) =
              Sent (Dict [(''finished'', FBool True), (''param'', FParams ps)]) \<and>
            rank_calls (run L E H w) = 0) \<and>
         (engine w \<in> {''random'', ''bayes'', ''abtest'', ''lhs''} \<longrightarrow>
            channel (run L E H w) \<noteq> [] \<and>
            (\<exists>rank. last (channel (run L E H w)) =
               Sent (Dict [(''param'', FParams ps), (''rank'', FRank rank),
                           (''finished'', FBool True)])) \<and>
            rank_calls (run L E H w) = 1)"
proof (cases rule: run_cases [where L = L and w = w and E = E and H = H])
  case (not_prepared e w1)
  with completed show ?thesis by (simp add: handle_exn_def)
next
  case (failed sp rx ry w1 e st)
  with completed show ?thesis by (simp add: handle_exn_def)
next
  case (tpe sp rx ry w1 best st)
  from tpe(1) have "engine w1 = engine w" by (rule prepare_engine)
  moreover from search_end_engine [OF tpe(2)] have "engine w1 = ''tpe''" by simp
  ultimately have eng: "engine w = ''tpe''" by simp
  from completed tpe(3) have "best = ps" by simp
  with tpe(3) eng show ?thesis by simp
next
  case (ranked sp rx ry w1 r st)
  from ranked(1) have "engine w1 = engine w" by (rule prepare_engine)
  moreover from search_end_engine [OF ranked(2)] ranked(3) have "engine w1 \<noteq> ''tpe''" by simp
  ultimately have eng: "engine w \<noteq> ''tpe''" by simp
  from finish_cases [of E w1 r st] completed ranked(4)
  obtain rank where "channel (run L E H w) = trace st @
        [Sent (Dict [(''param'', FParams ps), (''rank'', FRank rank), (''finished'', FBool True)])]"
      "rank_calls (run L E H w) = 1"
    by auto
  with eng show ?thesis by simp
qed


lemma completed_run_examples:
  "run ideal_lib demo_collab good_harness (init_optimizer [knob_x] ''random'' 3 None None None)
     = \<lparr>channel = [Sent (Dict [(''param'', FParams [(''x'', VInt 3)])]), Received ''1.5,2'',
                   Sent (Dict [(''param'', FParams [(''x'', VInt 7)])]), Received ''1.5,2'',
                   Sent (Dict [(''param'', FParams [(''x'', VInt 3)]),
                               (''rank'', FRank ''x: 100.0%''), (''finished'', FBool True)])],
        outcome = Returned (Some [(''x'', VInt 3)]), rank_calls = 1,
        worker = (init_optimizer [knob_x] ''random'' 3 None None None)\<lparr>ref := [VInt 5]\<rparr>\<rparr> \<and>
   run ideal_lib demo_collab good_harness (init_optimizer [knob_x] ''tpe'' 3 None None None)
     = \<lparr>channel = [Sent (Dict [(''finished'', FBool True), (''param'', FParams [(''x'', VInt 4)])])],
        outcome = Returned (Some [(''x'', VInt 4)]), rank_calls = 0,
        worker = (init_optimizer [knob_x] ''tpe'' 3 None None None)\<lparr>ref := [VInt 5]\<rparr>\<rparr>"
  by code_simp


text \<open>
  C2. The claim is that a completed run of the engines abtest and lhs ends with the
  message that holds \<^verbatim>\<open>param\<close>, \<^verbatim>\<open>rank\<close> and \<^verbatim>\<open>finished\<close>. The two branches
  never assign \<^verbatim>\<open>ret\<close>, and the loop after the \<^verbatim>\<open>try\<close> block reads \<^verbatim>\<open>ret.x[i]\<close>:
  with one knob, after the collaborator has returned its trials and best configuration,
  \<^verbatim>\<open>run\<close> leaves with \<^verbatim>\<open>UnboundLocalError\<close> and nothing is sent.
\<close>

theorem run_abtest_lhs_unbound_ret:
  "run ideal_lib demo_collab good_harness (init_optimizer [knob_x] ''abtest'' 3 None None None)
     = \<lparr>channel = [], outcome = Crashed (UnboundLocalError ''ret''), rank_calls = 0,
        worker = (init_optimizer [knob_x] ''abtest'' 3 None None None)\<lparr>ref := [VInt 5]\<rparr>\<rparr> \<and>
   run ideal_lib demo_collab good_harness (init_optimizer [knob_x] ''lhs'' 3 None None None)
     = \<lparr>channel = [], outcome = Crashed (UnboundLocalError ''ret''), rank_calls = 0,
        worker = (init_optimizer [knob_x] ''lhs'' 3 None None None)\<lparr>ref := [VInt 5]\<rparr>\<rparr>"
  by code_simp


section \<open>Properties of the feature ranking\<close>

lemma sum_list_map_insort_key:
  fixes g :: "'b \<Rightarrow> 'a :: comm_monoid_add"
  shows "sum_list (map g (insort_key f x xs)) = g x + sum_list (map g xs)"
  by (induction xs) (simp_all add: add.left_commute)

lemma sum_list_map_sort_key:
  fixes g :: "'b \<Rightarrow> 'a :: comm_monoid_add"
  shows "sum_list (map g (sort_key f xs)) = sum_list (map g xs)"
  by (induction xs) (simp_all add: sum_list_map_insort_key)

lemma sum_abs_nonneg:
  fixes coef :: "'a :: linordered_field list"
  shows "0 \<le> sum_list (map abs coef)"
  by (induction coef) simp_all

lemma sum_abs_zero_iff:
  fixes coef :: "'a :: linordered_field list"
  shows "sum_list (map abs coef) = 0 \<longleftrightarrow> (\<forall>c \<in> set coef. c = 0)"
proof (induction coef)
  case Nil
  show ?case by simp
next
  case (Cons a coef)
  have "\<bar>a\<bar> + sum_list (map abs coef) = 0 \<longleftrightarrow> \<bar>a\<bar> = 0 \<and> sum_list (map abs coef) = 0"
    by (rule add_nonneg_eq_0_iff) (simp_all add: sum_abs_nonneg)
  with Cons show ?case by simp
qed

lemma sum_abs_scaled:
  fixes coef :: "'a :: linordered_field list"
  shows "sum_list (map (\<lambda>c. \<bar>c\<bar> * 100 / k) coef) = sum_list (map abs coef) * 100 / k"
  by (induction coef) (simp_all add: add_divide_distrib distrib_right)

lemma sum_abs_pos:
  fixes coef :: "'a :: linordered_field list"
  assumes "\<exists>c \<in> set coef. c \<noteq> 0"
  shows "0 < sum_list (map abs coef)"
proof -
  have "0 \<le> sum_list (map abs coef)" by (rule sum_abs_nonneg)
  moreover have "sum_list (map abs coef) \<noteq> 0" using assms sum_abs_zero_iff [of coef] by blast
  ultimately show ?thesis by simp
qed

lemma feature_shares_rounded:
  "feature_shares rnd coef labels =
     map (\<lambda>(l, s). (l, rnd s)) (feature_shares (\<lambda>x. x) coef labels)"
  by (simp add: feature_shares_def Let_def case_prod_unfold)

lemma feature_shares_mset:
  "mset (feature_shares (\<lambda>x. x) coef labels) =
     mset (map (\<lambda>(c, l). (l, c * 100 / sum_list (map abs coef))) (zip coef labels))"
  by (simp add: feature_shares_def Let_def)

lemma feature_shares_sorted:
  fixes coef :: "'a :: linordered_field list"
  assumes "0 < sum_list (map abs coef)"
  shows "sorted_wrt (\<lambda>a b. \<bar>snd b\<bar> \<le> \<bar>snd a\<bar>) (feature_shares (\<lambda>x. x) coef labels)"
proof -
  let ?t = "sum_list (map abs coef)"
  let ?r = "sort_key (\<lambda>x. - \<bar>fst x\<bar>) (zip coef labels)"
  have "sorted (map (\<lambda>x. - \<bar>fst x\<bar>) ?r)" by (rule sorted_sort_key)
  then have "sorted_wrt (\<lambda>x y. \<bar>fst y\<bar> \<le> \<bar>fst x\<bar>) ?r"
    by (simp add: sorted_map sorted_wrt_iff_nth_less)
  then have "sorted_wrt (\<lambda>x y. \<bar>fst y * 100 / ?t\<bar> \<le> \<bar>fst x * 100 / ?t\<bar>) ?r"
    by (rule sorted_wrt_mono_rel [rotated])
       (use assms in \<open>simp add: abs_mult divide_right_mono\<close>)
  then show ?thesis
    by (simp add: feature_shares_def Let_def sorted_wrt_map case_prod_unfold)
qed

lemma feature_shares_sum:
  fixes coef :: "'a :: linordered_field list"
  assumes len: "length coef \<le> length labels" and pos: "0 < sum_list (map abs coef)"
  shows "sum_list (map (\<lambda>(l, s). \<bar>s\<bar>) (feature_shares (\<lambda>x. x) coef labels)) = 100"
proof -
  let ?t = "sum_list (map abs coef)"
  have fst_zip: "map fst (zip coef labels) = coef"
    using len by (induction coef arbitrary: labels) (auto simp: Suc_le_length_iff)
  have "sum_list (map (\<lambda>(l, s). \<bar>s\<bar>) (feature_shares (\<lambda>x. x) coef labels))
      = sum_list (map (\<lambda>x. \<bar>fst x * 100 / ?t\<bar>) (sort_key (\<lambda>x. - \<bar>fst x\<bar>) (zip coef labels)))"
    by (simp add: feature_shares_def Let_def case_prod_unfold comp_def)
  also have "\<dots> = sum_list (map (\<lambda>x. \<bar>fst x * 100 / ?t\<bar>) (zip coef labels))"
    by (rule sum_list_map_sort_key)
  also have "\<dots> = sum_list (map (\<lambda>c. \<bar>c\<bar> * 100 / ?t) (map fst (zip coef labels)))"
    using pos by (simp add: comp_def abs_mult)
  also have "\<dots> = sum_list (map abs coef) * 100 / ?t"
    unfolding fst_zip by (rule sum_abs_scaled)
  also have "\<dots> = 100" using pos by simp
  finally show ?thesis .
qed

text \<open>
  C4 as the code has it, for exact arithmetic and one label per coefficient. When some
  coefficient is non-zero, the output lists for every knob the rounded value of its
  signed share \<open>c * 100 / total\<close> of the sum of the absolute coefficients (a negative
  coefficient has a negative share), in the order of descending absolute value, and
  the absolute values of the shares sum to 100. When every coefficient is zero, every
  label is printed with 0.
\<close>

theorem feature_importance_signed_shares:
  fixes coef :: "'a :: linordered_field list"
  shows "length coef = length labels \<Longrightarrow>
    ((\<exists>c \<in> set coef. c \<noteq> 0) \<longrightarrow>
       feature_importance (\<lambda>opts perf. coef) rnd shw opts perf labels =
         py_join '', '' (map (\<lambda>(label, v). label @ '': '' @ shw v @ ''%'')
                           (feature_shares rnd coef labels)) \<and>
       feature_shares rnd coef labels =
         map (\<lambda>(l, s). (l, rnd s)) (feature_shares (\<lambda>x. x) coef labels) \<and>
       mset (feature_shares (\<lambda>x. x) coef labels) =
         mset (map (\<lambda>(c, l). (l, c * 100 / sum_list (map abs coef))) (zip coef labels)) \<and>
       sorted_wrt (\<lambda>a b. \<bar>snd b\<bar> \<le> \<bar>snd a\<bar>) (feature_shares (\<lambda>x. x) coef labels) \<and>
       sum_list (map (\<lambda>(l, s). \<bar>s\<bar>) (feature_shares (\<lambda>x. x) coef labels)) = 100) \<and>
    ((\<forall>c \<in> set coef. c = 0) \<longrightarrow>
       feature_importance (\<lambda>opts perf. coef) rnd shw opts perf labels =
         py_join '', '' (map (\<lambda>label. label @ '': 0'') labels))"
proof (intro conjI impI)
  assume len: "length coef = length labels" and nz: "\<exists>c \<in> set coef. c \<noteq> 0"
  have pos: "0 < sum_list (map abs coef)" using nz by (rule sum_abs_pos)
  show "feature_importance (\<lambda>opts perf. coef) rnd shw opts perf labels =
         py_join '', '' (map (\<lambda>(label, v). label @ '': '' @ shw v @ ''%'')
                           (feature_shares rnd coef labels))"
    using pos by (simp add: feature_importance_def Let_def)
  show "feature_shares rnd coef labels =
         map (\<lambda>(l, s). (l, rnd s)) (feature_shares (\<lambda>x. x) coef labels)"
    by (rule feature_shares_rounded)
  show "mset (feature_shares (\<lambda>x. x) coef labels) =
         mset (map (\<lambda>(c, l). (l, c * 100 / sum_list (map abs coef))) (zip coef labels))"
    by (rule feature_shares_mset)
  show "sorted_wrt (\<lambda>a b. \<bar>snd b\<bar> \<le> \<bar>snd a\<bar>) (feature_shares (\<lambda>x. x) coef labels)"
    using pos by (rule feature_shares_sorted)
  show "sum_list (map (\<lambda>(l, s). \<bar>s\<bar>) (feature_shares (\<lambda>x. x) coef labels)) = 100"
    using len pos by (simp add: feature_shares_sum)
next
  assume "\<forall>c \<in> set coef. c = 0"
  then have "sum_list (map abs coef) = 0" by (simp add: sum_abs_zero_iff)
  then show "feature_importance (\<lambda>opts perf. coef) rnd shw opts perf labels =
         py_join '', '' (map (\<lambda>label. label @ '': 0'') labels)"
    by (simp add: feature_importance_def Let_def)
qed

theorem feature_importance_signed_shares_witness:
  "length [1, - 3, 2 :: rat] = length [''a'', ''b'', ''c''] \<and>
   feature_shares round2 [1, - 3, 2 :: rat] [''a'', ''b'', ''c'']
     = [(''b'', - 50), (''c'', 3333 / 100), (''a'', 1667 / 100)] \<and>
   sum_list (map (\<lambda>(l, s). \<bar>s\<bar>) (feature_shares (\<lambda>x. x) [1, - 3, 2 :: rat] [''a'', ''b'', ''c''])) = 100 \<and>
   feature_importance (\<lambda>opts perf. [0, 0 :: rat]) round2 (\<lambda>v. ''?'') () () [''a'', ''b'']
     = ''a: 0, b: 0''"
proof -
  have a: "\<exists>c \<in> set [1, - 3, 2 :: rat]. c \<noteq> 0" by simp
  have b: "\<forall>c \<in> set [0, 0 :: rat]. c = 0" by simp
  have s: "feature_shares round2 [1, - 3, 2 :: rat] [''a'', ''b'', ''c'']
     = [(''b'', - 50), (''c'', 3333 / 100), (''a'', 1667 / 100)]" by code_simp
  show ?thesis
    using a b s
      feature_importance_signed_shares [of "[1, - 3, 2 :: rat]" "[''a'', ''b'', ''c'']" round2 "\<lambda>v. ''?''" "()" "()"]
      feature_importance_signed_shares [of "[0, 0 :: rat]" "[''a'', ''b'']" round2 "\<lambda>v. ''?''" "()" "()"]
    by simp
qed

text \<open>
  C4 as the claim states it fails: for the coefficients 1 and -1 the output holds 50
  and -50, which sum to 0 and not to 100.
\<close>

theorem feature_importance_shares_cancel:
  "feature_shares round2 [1, - 1 :: rat] [''a'', ''b''] = [(''a'', 50), (''b'', - 50)] \<and>
   sum_list (map snd (feature_shares round2 [1, - 1 :: rat] [''a'', ''b''])) = 0"
  by code_simp

end
